theory Spec2Isabelle
  imports Main "HOL-Library.Word" "HOL-Library.Log_Nat"
begin

unbundle bit_operations_syntax

section \<open>Text as the runtime has it\<close>

text \<open>
  A JavaScript string is a sequence of 16-bit code units; a chunk handed out by
  \<open>reader.read()\<close> is a sequence of bytes (a \<open>Uint8Array\<close>).  Source literals are written
  \<open>js ''...''\<close>.
\<close>

type_synonym jschar = "16 word"
type_synonym jsstring = "jschar list"
type_synonym bytes = "8 word list"

definition js :: "string \<Rightarrow> jsstring" where
  "js s = map of_char s"

text \<open>
  \<open>s.split('\n')\<close>: the pieces between the separators.  The result is never empty (see
  \<open>split_nl_not_Nil\<close>), so the first case of the \<open>case\<close> is never taken.
\<close>

fun split_nl :: "jsstring \<Rightarrow> jsstring list" where
  "split_nl [] = [[]]"
| "split_nl (c # cs) =
     (if c = 0x0A then [] # split_nl cs
      else (case split_nl cs of
              [] \<Rightarrow> [[c]]
            | l # ls \<Rightarrow> (c # l) # ls))"

text \<open>\<open>s.startsWith(p)\<close> and \<open>s.slice(n)\<close> for a non-negative literal \<open>n\<close>.\<close>

definition startsWith :: "jsstring \<Rightarrow> jsstring \<Rightarrow> bool" where
  "startsWith s p = (take (length p) s = p)"

definition slice_from :: "jsstring \<Rightarrow> nat \<Rightarrow> jsstring" where
  "slice_from s n = drop n s"

text \<open>
  \<open>s.trim()\<close> removes the code units of ECMAScript's WhiteSpace and LineTerminator
  productions from both ends.
\<close>

definition is_trim_space :: "jschar \<Rightarrow> bool" where
  "is_trim_space c =
     (c = 0x09 \<or> c = 0x0A \<or> c = 0x0B \<or> c = 0x0C \<or> c = 0x0D \<or> c = 0x20 \<or> c = 0xA0
      \<or> c = 0x1680 \<or> (0x2000 \<le> c \<and> c \<le> 0x200A) \<or> c = 0x2028 \<or> c = 0x2029
      \<or> c = 0x202F \<or> c = 0x205F \<or> c = 0x3000 \<or> c = 0xFEFF)"

definition trim :: "jsstring \<Rightarrow> jsstring" where
  "trim s = rev (dropWhile is_trim_space (rev (dropWhile is_trim_space s)))"

section \<open>\<open>TextDecoder.decode\<close>\<close>

text \<open>
  \<open>new TextDecoder()\<close> is a UTF-8 decoder that replaces malformed input by U+FFFD and drops
  a leading byte order mark.  The handler calls \<open>decode(value)\<close> without the \<open>stream\<close>
  option, so every call starts from the initial state and flushes at the end of its
  argument.  The state and the byte handler follow the Encoding standard.
\<close>

record utf8_state =
  code_point :: nat
  bytes_seen :: nat
  bytes_needed :: nat
  lower_boundary :: "8 word"
  upper_boundary :: "8 word"

definition utf8_init :: utf8_state where
  "utf8_init = \<lparr>code_point = 0, bytes_seen = 0, bytes_needed = 0,
                 lower_boundary = 0x80, upper_boundary = 0xBF\<rparr>"

text \<open>A byte met while no sequence is open.\<close>

definition utf8_lead :: "8 word \<Rightarrow> nat list \<times> utf8_state" where
  "utf8_lead b =
     (if b \<le> 0x7F then ([unat b], utf8_init)
      else if 0xC2 \<le> b \<and> b \<le> 0xDF then
        ([], utf8_init\<lparr>bytes_needed := 1, code_point := unat (b AND 0x1F)\<rparr>)
      else if 0xE0 \<le> b \<and> b \<le> 0xEF then
        ([], utf8_init\<lparr>lower_boundary := (if b = 0xE0 then 0xA0 else 0x80),
                        upper_boundary := (if b = 0xED then 0x9F else 0xBF),
                        bytes_needed := 2, code_point := unat (b AND 0xF)\<rparr>)
      else if 0xF0 \<le> b \<and> b \<le> 0xF4 then
        ([], utf8_init\<lparr>lower_boundary := (if b = 0xF0 then 0x90 else 0x80),
                        upper_boundary := (if b = 0xF4 then 0x8F else 0xBF),
                        bytes_needed := 3, code_point := unat (b AND 0x7)\<rparr>)
      else ([0xFFFD], utf8_init))"

text \<open>
  One byte: the code points it completes and the next state.  A byte outside the
  boundaries closes the open sequence with U+FFFD and is then read again as a lead byte.
\<close>

definition utf8_step :: "utf8_state \<Rightarrow> 8 word \<Rightarrow> nat list \<times> utf8_state" where
  "utf8_step st b =
     (if bytes_needed st = 0 then utf8_lead b
      else if \<not> (lower_boundary st \<le> b \<and> b \<le> upper_boundary st) then
        (0xFFFD # fst (utf8_lead b), snd (utf8_lead b))
      else
        (let cp = code_point st * 64 + unat (b AND 0x3F);
             seen = bytes_seen st + 1
         in if seen \<noteq> bytes_needed st then
              ([], st\<lparr>code_point := cp, bytes_seen := seen,
                      lower_boundary := 0x80, upper_boundary := 0xBF\<rparr>)
            else ([cp], utf8_init)))"

fun utf8_run :: "utf8_state \<Rightarrow> bytes \<Rightarrow> nat list" where
  "utf8_run st [] = (if bytes_needed st \<noteq> 0 then [0xFFFD] else [])"
| "utf8_run st (b # bs) = fst (utf8_step st b) @ utf8_run (snd (utf8_step st b)) bs"

text \<open>A code point as UTF-16 code units.\<close>

definition utf16_units :: "nat \<Rightarrow> jsstring" where
  "utf16_units cp =
     (if cp < 0x10000 then [of_nat cp]
      else [of_nat (0xD800 + (cp - 0x10000) div 0x400),
            of_nat (0xDC00 + (cp - 0x10000) mod 0x400)])"

definition strip_bom :: "nat list \<Rightarrow> nat list" where
  "strip_bom cps = (case cps of [] \<Rightarrow> [] | c # cs \<Rightarrow> if c = 0xFEFF then cs else c # cs)"

definition decode :: "bytes \<Rightarrow> jsstring" where
  "decode v = concat (map utf16_units (strip_bom (utf8_run utf8_init v)))"

section \<open>Numbers\<close>

text \<open>
  A Number is an IEEE 754 double.  A finite one is kept as sign, significand \<open>m\<close> and
  binary exponent \<open>q\<close>, standing for \<open>m * 2 ^ q\<close> with \<open>m < 2 ^ 53\<close> and \<open>- 1074 \<le> q\<close>;
  both zeros have \<open>m = 0\<close>.  \<open>JSON.parse\<close> never yields NaN, so NaN is not a value
  here.
\<close>

datatype number = Finite bool nat int | Infinity bool

text \<open>\<open>round_div n d\<close>: the integer nearest to \<open>n / d\<close>, ties to the even one.\<close>

definition round_div :: "nat \<Rightarrow> nat \<Rightarrow> nat" where
  "round_div n d =
     (let quo = n div d; r = n mod d
      in if 2 * r < d then quo
         else if d < 2 * r then quo + 1
         else if even quo then quo else quo + 1)"

text \<open>
  The double nearest to the positive rational \<open>n / d\<close>: \<open>e\<close> is the exponent of its
  leading bit, \<open>q\<close> the exponent of the last place kept.
\<close>

definition binary_exponent :: "nat \<Rightarrow> nat \<Rightarrow> int" where
  "binary_exponent n d =
     (let k = int (floorlog 2 n) - int (floorlog 2 d)
      in if (if 0 \<le> k then d * 2 ^ nat k \<le> n else d \<le> n * 2 ^ nat (- k)) then k else k - 1)"

definition round_double :: "bool \<Rightarrow> nat \<Rightarrow> nat \<Rightarrow> number" where
  "round_double neg n d =
     (if n = 0 then Finite neg 0 0
      else
        let q = max (binary_exponent n d - 52) (- 1074);
            m = (if 0 \<le> q then round_div n (d * 2 ^ nat q) else round_div (n * 2 ^ nat (- q)) d)
        in if m = 2 ^ 53 then (if q + 1 > 971 then Infinity neg else Finite neg (2 ^ 52) (q + 1))
           else if q > 971 then Infinity neg
           else if m = 0 then Finite neg 0 0
           else Finite neg m q)"

text \<open>The value of the decimal numeral \<open>m * 10 ^ e\<close>.\<close>

definition decimal_to_number :: "bool \<Rightarrow> nat \<Rightarrow> int \<Rightarrow> number" where
  "decimal_to_number neg m e =
     (if 0 \<le> e then round_double neg (m * 10 ^ nat e) 1 else round_double neg m (10 ^ nat (- e)))"

definition number_is_zero :: "number \<Rightarrow> bool" where
  "number_is_zero x = (case x of Finite _ m _ \<Rightarrow> m = 0 | Infinity _ \<Rightarrow> False)"

subsection \<open>\<open>Number::toString\<close>\<close>

text \<open>
  The decimal form of a Number: the fewest digits \<open>s\<close> and the exponent \<open>n\<close> with
  \<open>s * 10 ^ (n - k)\<close> rounding back to the Number, \<open>k\<close> the number of digits of \<open>s\<close>; among
  several such \<open>s\<close> the one nearest to the Number.
\<close>

function decimal_digits :: "nat \<Rightarrow> jsstring" where
  "decimal_digits n =
     (if n < 10 then [of_nat (48 + n)] else decimal_digits (n div 10) @ [of_nat (48 + n mod 10)])"
  by pat_completeness auto
termination
  by (relation "measure id") auto

text \<open>\<open>decimal_exponent m q\<close>: the \<open>n\<close> with \<open>10 ^ (n - 1) \<le> m * 2 ^ q < 10 ^ n\<close>, for \<open>0 < m\<close>.\<close>

definition decimal_exponent :: "nat \<Rightarrow> int \<Rightarrow> int" where
  "decimal_exponent m q =
     (if 0 \<le> q then int (floorlog 10 (m * 2 ^ nat q))
      else
        let d = 2 ^ nat (- q)
        in if d \<le> m then int (floorlog 10 (m div d))
           else 1 - int (floorlog 10 ((d + m - 1) div m - 1)))"

text \<open>
  The candidate with \<open>k\<close> digits: \<open>m * 2 ^ q / 10 ^ (n - k)\<close> rounded to the nearer integer
  first, to the other neighbour second; \<open>None\<close> when neither rounds back.
\<close>

definition digits_candidate :: "nat \<Rightarrow> int \<Rightarrow> int \<Rightarrow> nat \<Rightarrow> (nat \<times> int) option" where
  "digits_candidate m q n k =
     (let xn = m * (if 0 \<le> q then 2 ^ nat q else 1);
          xd = (if q < 0 then 2 ^ nat (- q) else 1);
          target = round_double False xn xd;
          p = n - int k;
          num = xn * (if p < 0 then 10 ^ nat (- p) else 1);
          den = xd * (if 0 \<le> p then 10 ^ nat p else 1);
          lo = num div den;
          near = round_div num den;
          far = (if near = lo then lo + 1 else lo);
          pick = (\<lambda>s. if s = 10 ^ k then (10 ^ (k - 1), n + 1) else (s, n))
      in if decimal_to_number False near p = target then Some (pick near)
         else if decimal_to_number False far p = target then Some (pick far)
         else None)"

fun shortest_digits :: "nat \<Rightarrow> int \<Rightarrow> int \<Rightarrow> nat list \<Rightarrow> (nat \<times> int) option" where
  "shortest_digits m q n [] = None"
| "shortest_digits m q n (k # ks) =
     (case digits_candidate m q n k of
        Some r \<Rightarrow> Some r
      | None \<Rightarrow> shortest_digits m q n ks)"

definition format_number :: "nat \<Rightarrow> int \<Rightarrow> jsstring" where
  "format_number s n =
     (let ds = decimal_digits s; k = int (length ds)
      in if k \<le> n \<and> n \<le> 21 then ds @ replicate (nat (n - k)) 0x30
         else if 0 < n \<and> n \<le> 21 then take (nat n) ds @ 0x2E # drop (nat n) ds
         else if - 6 < n \<and> n \<le> 0 then 0x30 # 0x2E # replicate (nat (- n)) 0x30 @ ds
         else
           let e = n - 1;
               sign = (if e < 0 then 0x2D else 0x2B);
               es = decimal_digits (nat \<bar>e\<bar>)
           in if k = 1 then ds @ 0x65 # sign # es
              else hd ds # 0x2E # tl ds @ 0x65 # sign # es)"

text \<open>
  Seventeen digits identify every double, so the search finds a result for every Number
  that \<open>JSON.parse\<close> yields; the empty string is the value only for an \<open>m\<close> and a \<open>q\<close>
  that stand for no double.
\<close>

definition number_to_string :: "number \<Rightarrow> jsstring" where
  "number_to_string x =
     (case x of
        Infinity neg \<Rightarrow> (if neg then js ''-Infinity'' else js ''Infinity'')
      | Finite neg m q \<Rightarrow>
          if m = 0 then js ''0''
          else (case shortest_digits m q (decimal_exponent m q) [1 ..< 18] of
                  None \<Rightarrow> []
                | Some (s, n) \<Rightarrow> (if neg then [0x2D] else []) @ format_number s n))"

section \<open>\<open>JSON.parse\<close>\<close>

datatype json =
    JNull
  | JBool bool
  | JNumber number
  | JString jsstring
  | JArray "json list"
  | JObject "(jsstring \<times> json) list"

text \<open>
  An object keeps its members in the order of the text, a repeated key included; the
  value of a key is the one written last (see \<open>get_property\<close>).
\<close>

datatype token =
    TLBrace | TRBrace | TLBracket | TRBracket | TColon | TComma
  | TString jsstring | TNumber number | TTrue | TFalse | TNull

definition is_json_space :: "jschar \<Rightarrow> bool" where
  "is_json_space c = (c = 0x09 \<or> c = 0x0A \<or> c = 0x0D \<or> c = 0x20)"

definition is_digit :: "jschar \<Rightarrow> bool" where
  "is_digit c = (0x30 \<le> c \<and> c \<le> 0x39)"

definition digits_value :: "jsstring \<Rightarrow> nat" where
  "digits_value ds = foldl (\<lambda>n c. 10 * n + (unat c - 48)) 0 ds"

definition hex_value :: "jschar \<Rightarrow> nat option" where
  "hex_value c =
     (if 0x30 \<le> c \<and> c \<le> 0x39 then Some (unat c - 0x30)
      else if 0x41 \<le> c \<and> c \<le> 0x46 then Some (unat c - 0x41 + 10)
      else if 0x61 \<le> c \<and> c \<le> 0x66 then Some (unat c - 0x61 + 10)
      else None)"

text \<open>The code unit of \<open>\uXXXX\<close>, from the four code units after the \<open>u\<close>.\<close>

definition hex4 :: "jsstring \<Rightarrow> jschar option" where
  "hex4 hs =
     (case map hex_value hs of
        [Some a, Some b, Some c, Some d] \<Rightarrow> Some (of_nat (((a * 16 + b) * 16 + c) * 16 + d))
      | _ \<Rightarrow> None)"

definition escape_char :: "jschar \<Rightarrow> jschar option" where
  "escape_char e =
     (if e = 0x22 then Some 0x22
      else if e = 0x5C then Some 0x5C
      else if e = 0x2F then Some 0x2F
      else if e = 0x62 then Some 0x08
      else if e = 0x66 then Some 0x0C
      else if e = 0x6E then Some 0x0A
      else if e = 0x72 then Some 0x0D
      else if e = 0x74 then Some 0x09
      else None)"

text \<open>
  A string after its opening quote: the code units it denotes (collected in reverse in
  \<open>acc\<close>) and the text after the closing quote.
\<close>

fun lex_string :: "jsstring \<Rightarrow> jsstring \<Rightarrow> (jsstring \<times> jsstring) option" where
  "lex_string acc [] = None"
| "lex_string acc (c # cs) =
     (if c = 0x22 then Some (rev acc, cs)
      else if c < 0x20 then None
      else if c \<noteq> 0x5C then lex_string (c # acc) cs
      else
        (case cs of
           [] \<Rightarrow> None
         | e # es \<Rightarrow>
             if e = 0x75 then
               (case hex4 (take 4 es) of
                  None \<Rightarrow> None
                | Some u \<Rightarrow> lex_string (u # acc) (drop 4 es))
             else
               (case escape_char e of
                  None \<Rightarrow> None
                | Some x \<Rightarrow> lex_string (x # acc) es)))"

text \<open>
  A number at the head of the text: \<open>-? (0 | [1-9][0-9]*) (. [0-9]+)? ([eE] [+-]? [0-9]+)?\<close>,
  its value and the text after it.
\<close>

definition lex_fraction :: "jsstring \<Rightarrow> (jsstring \<times> jsstring) option" where
  "lex_fraction s =
     (if s \<noteq> [] \<and> hd s = 0x2E then
        (if takeWhile is_digit (tl s) = [] then None
         else Some (takeWhile is_digit (tl s), dropWhile is_digit (tl s)))
      else Some ([], s))"

definition lex_exponent :: "jsstring \<Rightarrow> (int \<times> jsstring) option" where
  "lex_exponent s =
     (if s \<noteq> [] \<and> (hd s = 0x65 \<or> hd s = 0x45) then
        (let neg = (tl s \<noteq> [] \<and> hd (tl s) = 0x2D);
             s' = (if tl s \<noteq> [] \<and> (hd (tl s) = 0x2D \<or> hd (tl s) = 0x2B) then tl (tl s) else tl s);
             ds = takeWhile is_digit s'
         in if ds = [] then None
            else Some (if neg then - int (digits_value ds) else int (digits_value ds),
                       dropWhile is_digit s'))
      else Some (0, s))"

definition lex_number :: "jsstring \<Rightarrow> (number \<times> jsstring) option" where
  "lex_number s =
     (let neg = (s \<noteq> [] \<and> hd s = 0x2D);
          s1 = (if neg then tl s else s);
          ip = takeWhile is_digit s1
      in if ip = [] \<or> (hd ip = 0x30 \<and> 1 < length ip) then None
         else
           (case lex_fraction (dropWhile is_digit s1) of
              None \<Rightarrow> None
            | Some (fp, s3) \<Rightarrow>
                (case lex_exponent s3 of
                   None \<Rightarrow> None
                 | Some (e, rest) \<Rightarrow>
                     Some (decimal_to_number neg (digits_value (ip @ fp)) (e - int (length fp)),
                           rest))))"

lemma lex_string_shorter:
  "lex_string acc cs = Some (s, rest) \<Longrightarrow> length rest < length cs"
proof (induction acc cs rule: lex_string.induct)
  case (1 acc)
  then show ?case by simp
next
  case (2 acc c cs)
  show ?case
  proof (cases "c = 0x22")
    case True
    with "2.prems" show ?thesis by simp
  next
    case False
    note not_quote = this
    show ?thesis
    proof (cases "c \<noteq> 0x5C")
      case True
      with "2.prems" not_quote have "\<not> c < 0x20" and "lex_string (c # acc) cs = Some (s, rest)"
        by (auto split: if_splits)
      with "2.IH"(1) not_quote True show ?thesis by fastforce
    next
      case False
      with "2.prems" not_quote obtain e es where cs: "cs = e # es" and big: "\<not> c < 0x20"
        by (cases cs) (auto split: if_splits)
      show ?thesis
      proof (cases "e = 0x75")
        case True
        with "2.prems" not_quote False cs big obtain u where
          u: "hex4 (take 4 es) = Some u" and r: "lex_string (u # acc) (drop 4 es) = Some (s, rest)"
          by (auto split: option.splits)
        from "2.IH"(2) [OF not_quote big _ cs True u r] False
        have "length rest < length (drop 4 es)" by simp
        with cs show ?thesis by simp
      next
        case ne: False
        with "2.prems" not_quote False cs big obtain x where
          x: "escape_char e = Some x" and r: "lex_string (x # acc) es = Some (s, rest)"
          by (auto split: option.splits)
        from "2.IH"(3) [OF not_quote big _ cs ne x r] False
        have "length rest < length es" by simp
        with cs show ?thesis by simp
      qed
    qed
  qed
qed

lemma dropWhile_tl_le: "length (dropWhile P (tl xs)) \<le> length xs"
  by (rule order_trans [OF length_dropWhile_le]) simp

lemma lex_fraction_le: "lex_fraction s = Some (fp, r) \<Longrightarrow> length r \<le> length s"
  by (auto simp: lex_fraction_def dropWhile_tl_le split: if_splits)

lemma lex_exponent_le:
  assumes "lex_exponent s = Some (e, r)"
  shows "length r \<le> length s"
proof (cases "s \<noteq> [] \<and> (hd s = 0x65 \<or> hd s = 0x45)")
  case False
  with assms show ?thesis by (simp add: lex_exponent_def)
next
  case True
  define s' where "s' = (if tl s \<noteq> [] \<and> (hd (tl s) = 0x2D \<or> hd (tl s) = 0x2B) then tl (tl s) else tl s)"
  from True assms have "r = dropWhile is_digit s'"
    by (auto simp: lex_exponent_def Let_def s'_def split: if_splits)
  moreover have "length s' \<le> length s" by (simp add: s'_def)
  ultimately show ?thesis
    using length_dropWhile_le [of is_digit s'] by simp
qed

lemma lex_number_shorter:
  assumes "lex_number s = Some (x, rest)"
  shows "length rest < length s"
proof -
  define s1 where "s1 = (if s \<noteq> [] \<and> hd s = 0x2D then tl s else s)"
  from assms have ip: "takeWhile is_digit s1 \<noteq> []"
    by (auto simp: lex_number_def Let_def s1_def split: if_splits)
  from assms ip obtain fp s3 e where
    f: "lex_fraction (dropWhile is_digit s1) = Some (fp, s3)" and
    x: "lex_exponent s3 = Some (e, rest)"
    unfolding lex_number_def Let_def s1_def [symmetric]
    by (auto split: if_splits option.splits)
  have "length (takeWhile is_digit s1) + length (dropWhile is_digit s1) = length s1"
    by (metis length_append takeWhile_dropWhile_id)
  with ip have "length (dropWhile is_digit s1) < length s1"
    by (cases "takeWhile is_digit s1") auto
  moreover have "length s1 \<le> length s" by (simp add: s1_def)
  ultimately show ?thesis
    using lex_fraction_le [OF f] lex_exponent_le [OF x] by linarith
qed

text \<open>The tokens of a text; \<open>None\<close> where \<open>JSON.parse\<close> throws a SyntaxError.\<close>

function tokenize :: "jsstring \<Rightarrow> token list option" where
  "tokenize [] = Some []"
| "tokenize (c # cs) =
     (if is_json_space c then tokenize cs
      else if c = 0x7B then map_option ((#) TLBrace) (tokenize cs)
      else if c = 0x7D then map_option ((#) TRBrace) (tokenize cs)
      else if c = 0x5B then map_option ((#) TLBracket) (tokenize cs)
      else if c = 0x5D then map_option ((#) TRBracket) (tokenize cs)
      else if c = 0x3A then map_option ((#) TColon) (tokenize cs)
      else if c = 0x2C then map_option ((#) TComma) (tokenize cs)
      else if c = 0x22 then
        (case lex_string [] cs of
           None \<Rightarrow> None
         | Some (s, rest) \<Rightarrow> map_option ((#) (TString s)) (tokenize rest))
      else if c = 0x2D \<or> is_digit c then
        (case lex_number (c # cs) of
           None \<Rightarrow> None
         | Some (x, rest) \<Rightarrow> map_option ((#) (TNumber x)) (tokenize rest))
      else if startsWith (c # cs) (js ''true'') then map_option ((#) TTrue) (tokenize (drop 3 cs))
      else if startsWith (c # cs) (js ''false'') then map_option ((#) TFalse) (tokenize (drop 4 cs))
      else if startsWith (c # cs) (js ''null'') then map_option ((#) TNull) (tokenize (drop 3 cs))
      else None)"
  by pat_completeness auto
termination
proof (relation "measure length")
  fix c cs x s rest
  assume "lex_string [] cs = Some x" and "(s, rest) = x"
  then show "(rest, c # cs) \<in> measure length"
    using lex_string_shorter [of "[]" cs s rest] by simp
next
  fix c cs x n rest
  assume "lex_number (c # cs) = Some x" and "(n, rest) = x"
  then show "(rest, c # cs) \<in> measure length"
    using lex_number_shorter [of "c # cs" n rest] by simp
qed simp_all

text \<open>
  The parser reads the tokens from left to right and keeps the open arrays and objects
  on a stack: an array with its elements so far (last first), an object with its
  members so far, and an object whose next member has its key but not yet its value.
\<close>

datatype frame =
    InArray "json list"
  | InObject "(jsstring \<times> json) list"
  | InMember "(jsstring \<times> json) list" jsstring

datatype parser =
    Value "frame list"
  | ValueOrEnd "frame list"
  | KeyOrEnd "frame list"
  | Key "frame list"
  | Colon "frame list"
  | Next "frame list"
  | Parsed json

text \<open>A value is complete: it is the text's value, an element or a member's value.\<close>

fun complete :: "json \<Rightarrow> frame list \<Rightarrow> parser option" where
  "complete v [] = Some (Parsed v)"
| "complete v (InArray acc # stk) = Some (Next (InArray (v # acc) # stk))"
| "complete v (InMember ms k # stk) = Some (Next (InObject (ms @ [(k, v)]) # stk))"
| "complete v (InObject ms # stk) = None"

fun begin_value :: "frame list \<Rightarrow> token \<Rightarrow> parser option" where
  "begin_value stk TNull = complete JNull stk"
| "begin_value stk TTrue = complete (JBool True) stk"
| "begin_value stk TFalse = complete (JBool False) stk"
| "begin_value stk (TNumber x) = complete (JNumber x) stk"
| "begin_value stk (TString s) = complete (JString s) stk"
| "begin_value stk TLBracket = Some (ValueOrEnd (InArray [] # stk))"
| "begin_value stk TLBrace = Some (KeyOrEnd (InObject [] # stk))"
| "begin_value stk _ = None"

fun parse_step :: "parser \<Rightarrow> token \<Rightarrow> parser option" where
  "parse_step (Value stk) t = begin_value stk t"
| "parse_step (ValueOrEnd (InArray acc # stk)) TRBracket = complete (JArray (rev acc)) stk"
| "parse_step (ValueOrEnd stk) t = begin_value stk t"
| "parse_step (KeyOrEnd (InObject ms # stk)) TRBrace = complete (JObject ms) stk"
| "parse_step (KeyOrEnd (InObject ms # stk)) (TString k) = Some (Colon (InMember ms k # stk))"
| "parse_step (Key (InObject ms # stk)) (TString k) = Some (Colon (InMember ms k # stk))"
| "parse_step (Colon stk) TColon = Some (Value stk)"
| "parse_step (Next (InArray acc # stk)) TComma = Some (Value (InArray acc # stk))"
| "parse_step (Next (InArray acc # stk)) TRBracket = complete (JArray (rev acc)) stk"
| "parse_step (Next (InObject ms # stk)) TComma = Some (Key (InObject ms # stk))"
| "parse_step (Next (InObject ms # stk)) TRBrace = complete (JObject ms) stk"
| "parse_step _ _ = None"

fun parse_tokens :: "parser \<Rightarrow> token list \<Rightarrow> json option" where
  "parse_tokens (Parsed v) [] = Some v"
| "parse_tokens _ [] = None"
| "parse_tokens p (t # ts) =
     (case parse_step p t of
        None \<Rightarrow> None
      | Some p' \<Rightarrow> parse_tokens p' ts)"

text \<open>\<open>JSON.parse(text)\<close>; \<open>None\<close> is the SyntaxError it throws.\<close>

definition JSON_parse :: "jsstring \<Rightarrow> json option" where
  "JSON_parse text = (case tokenize text of None \<Rightarrow> None | Some ts \<Rightarrow> parse_tokens (Value []) ts)"

section \<open>Values in expressions\<close>

datatype js_error = SyntaxError | TypeError | NetworkError

text \<open>
  The result of an expression is a value of \<open>JSON.parse\<close> or \<open>undefined\<close> (\<open>None\<close>).
  \<open>get_property v k\<close> is \<open>v[k]\<close> for a \<open>v\<close> that is neither \<open>null\<close> nor \<open>undefined\<close>: an
  own member of an object (the last one written under that key), an element of an
  array, a code unit of a string.  The handler reads the keys \<open>choices\<close>, \<open>0\<close>, \<open>delta\<close> and
  \<open>content\<close> only, which no prototype defines, so inherited properties and \<open>length\<close> are
  left out.
\<close>

definition array_index :: "jsstring \<Rightarrow> nat option" where
  "array_index k =
     (if k \<noteq> [] \<and> list_all is_digit k \<and> (length k = 1 \<or> hd k \<noteq> 0x30)
      then Some (digits_value k) else None)"

definition get_property :: "json \<Rightarrow> jsstring \<Rightarrow> json option" where
  "get_property v k =
     (case v of
        JObject ms \<Rightarrow> map_of (rev ms) k
      | JArray xs \<Rightarrow>
          (case array_index k of
             None \<Rightarrow> None
           | Some i \<Rightarrow> if i < length xs then Some (xs ! i) else None)
      | JString s \<Rightarrow>
          (case array_index k of
             None \<Rightarrow> None
           | Some i \<Rightarrow> if i < length s then Some (JString [s ! i]) else None)
      | _ \<Rightarrow> None)"

text \<open>\<open>base.k\<close> throws on \<open>null\<close> and \<open>undefined\<close>; \<open>base?.k\<close> is \<open>undefined\<close> there.\<close>

definition member :: "json option \<Rightarrow> jsstring \<Rightarrow> js_error + json option" where
  "member base k =
     (case base of
        None \<Rightarrow> Inl TypeError
      | Some JNull \<Rightarrow> Inl TypeError
      | Some v \<Rightarrow> Inr (get_property v k))"

definition optional_member :: "json option \<Rightarrow> jsstring \<Rightarrow> json option" where
  "optional_member base k =
     (case base of
        None \<Rightarrow> None
      | Some JNull \<Rightarrow> None
      | Some v \<Rightarrow> get_property v k)"

text \<open>ToBoolean, as the \<open>if\<close> and \<open>||\<close> apply it.\<close>

definition truthy :: "json option \<Rightarrow> bool" where
  "truthy v =
     (case v of
        None \<Rightarrow> False
      | Some JNull \<Rightarrow> False
      | Some (JBool b) \<Rightarrow> b
      | Some (JNumber x) \<Rightarrow> \<not> number_is_zero x
      | Some (JString s) \<Rightarrow> s \<noteq> []
      | Some (JArray _) \<Rightarrow> True
      | Some (JObject _) \<Rightarrow> True)"

text \<open>
  The string a value becomes when it is added to a string.  An array is its elements
  joined by commas, \<open>null\<close> elements empty; an object is \<open>[object Object]\<close>, unless it has
  a member \<open>toString\<close> of its own: that member is no function, and the conversion throws
  a TypeError (\<open>None\<close>).
\<close>

fun join_comma :: "jsstring list \<Rightarrow> jsstring" where
  "join_comma [] = []"
| "join_comma [s] = s"
| "join_comma (s # t # ss) = s @ 0x2C # join_comma (t # ss)"

fun to_string :: "json \<Rightarrow> jsstring option" where
  "to_string JNull = Some (js ''null'')"
| "to_string (JBool b) = Some (if b then js ''true'' else js ''false'')"
| "to_string (JNumber x) = Some (number_to_string x)"
| "to_string (JString s) = Some s"
| "to_string (JArray xs) =
     map_option join_comma
       (those (map (\<lambda>x. if x = JNull then Some [] else to_string x) xs))"
| "to_string (JObject ms) =
     (if js ''toString'' \<in> set (map fst ms) then None else Some (js ''[object Object]''))"

text \<open>\<open>s + v\<close> for a string \<open>s\<close>.\<close>

definition string_add :: "jsstring \<Rightarrow> json option \<Rightarrow> js_error + jsstring" where
  "string_add s v =
     (case v of
        None \<Rightarrow> Inr (s @ js ''undefined'')
      | Some w \<Rightarrow> (case to_string w of None \<Rightarrow> Inl TypeError | Some t \<Rightarrow> Inr (s @ t)))"

section \<open>The read loop of \<open>onRequest\<close>\<close>

text \<open>\<open>data.choices?.[0]?.delta?.content\<close>, the condition of the \<open>if\<close>.\<close>

definition optional_delta_content :: "json \<Rightarrow> js_error + json option" where
  "optional_delta_content data =
     (case member (Some data) (js ''choices'') of
        Inl e \<Rightarrow> Inl e
      | Inr choices \<Rightarrow>
          Inr (optional_member (optional_member (optional_member choices (js ''0'')) (js ''delta''))
                 (js ''content'')))"

text \<open>\<open>data.choices[0].delta.content\<close>, the value added to \<open>content\<close>.\<close>

definition delta_content :: "json \<Rightarrow> js_error + json option" where
  "delta_content data =
     (case member (Some data) (js ''choices'') of
        Inl e \<Rightarrow> Inl e
      | Inr choices \<Rightarrow>
          (case member choices (js ''0'') of
             Inl e \<Rightarrow> Inl e
           | Inr choice \<Rightarrow>
               (case member choice (js ''delta'') of
                  Inl e \<Rightarrow> Inl e
                | Inr delta \<Rightarrow> member delta (js ''content''))))"

text \<open>The body of the \<open>try\<close>: the new \<open>content\<close>, or what it throws.\<close>

definition try_block :: "jsstring \<Rightarrow> jsstring \<Rightarrow> js_error + jsstring" where
  "try_block content line =
     (case JSON_parse (trim (slice_from line 5)) of
        None \<Rightarrow> Inl SyntaxError
      | Some data \<Rightarrow>
          (case optional_delta_content data of
             Inl e \<Rightarrow> Inl e
           | Inr c \<Rightarrow>
               if truthy c then
                 (case delta_content data of
                    Inl e \<Rightarrow> Inl e
                  | Inr v \<Rightarrow> string_add content v)
               else Inr content))"

text \<open>One turn of the \<open>for\<close> loop; the empty \<open>catch\<close> leaves \<open>content\<close> as it was.\<close>

definition for_line :: "jsstring \<Rightarrow> jsstring \<Rightarrow> jsstring" where
  "for_line content line =
     (if startsWith line (js ''data:'') then
        (case try_block content line of
           Inl e \<Rightarrow> content
         | Inr content' \<Rightarrow> content')
      else content)"

definition for_lines :: "jsstring \<Rightarrow> jsstring \<Rightarrow> jsstring" where
  "for_lines content chunk = foldl for_line content (split_nl chunk)"

text \<open>
  The body of the upstream response is the sequence of results of \<open>reader.read()\<close>:
  chunks, then the end of the body or a failed read.  Every call of \<open>read\<close> is recorded.
\<close>

datatype stream = Done | Failed | Chunk bytes stream

datatype effect = Fetch jsstring jsstring "(jsstring \<times> jsstring) list" "bytes option" | Read

fun read_loop :: "jsstring \<Rightarrow> stream \<Rightarrow> (js_error + jsstring) \<times> effect list" where
  "read_loop content Done = (Inr content, [Read])"
| "read_loop content Failed = (Inl NetworkError, [Read])"
| "read_loop content (Chunk v rest) =
     (case read_loop (for_lines content (decode v)) rest of
        (r, effects) \<Rightarrow> (r, Read # effects))"

section \<open>Requests, responses and the runtime\<close>

type_synonym header_list = "(jsstring \<times> jsstring) list"

text \<open>Header names compare without regard to ASCII case; \<open>get\<close> joins the values of a name.\<close>

definition ascii_lower :: "jschar \<Rightarrow> jschar" where
  "ascii_lower c = (if 0x41 \<le> c \<and> c \<le> 0x5A then c + 0x20 else c)"

definition header_named :: "jsstring \<Rightarrow> jsstring \<times> jsstring \<Rightarrow> bool" where
  "header_named name h = (map ascii_lower (fst h) = map ascii_lower name)"

fun join_values :: "jsstring list \<Rightarrow> jsstring" where
  "join_values [] = []"
| "join_values [v] = v"
| "join_values (v # w # vs) = v @ 0x2C # 0x20 # join_values (w # vs)"

definition headers_get :: "header_list \<Rightarrow> jsstring \<Rightarrow> jsstring option" where
  "headers_get hs name =
     (case filter (header_named name) hs of
        [] \<Rightarrow> None
      | h # hs' \<Rightarrow> Some (join_values (map snd (h # hs'))))"

record request =
  request_method :: jsstring
  request_headers :: header_list
  request_body :: "bytes option"

record upstream_response =
  upstream_status :: nat
  upstream_headers :: header_list
  upstream_body :: "stream option"

record response =
  status :: nat
  headers :: header_list
  body :: jsstring

text \<open>
  \<open>new Response(text, {status, headers})\<close>.  A body given as a string brings the content
  type \<open>text/plain;charset=UTF-8\<close> when the headers name none.
\<close>

definition Response :: "jsstring \<Rightarrow> nat \<Rightarrow> header_list \<Rightarrow> response" where
  "Response text st hs =
     \<lparr>status = st,
      headers = (if headers_get hs (js ''content-type'') = None
                 then hs @ [(js ''content-type'', js ''text/plain;charset=UTF-8'')] else hs),
      body = text\<rparr>"

text \<open>
  What the handler takes from its surroundings: the answer of \<open>fetch\<close> to a URL, method,
  headers and body (a rejection is \<open>Inl\<close>), the next \<open>crypto.randomUUID()\<close> and the
  \<open>Date.now()\<close> of the moment the response is built.
\<close>

record runtime =
  fetch :: "jsstring \<Rightarrow> jsstring \<Rightarrow> header_list \<Rightarrow> bytes option \<Rightarrow> js_error + upstream_response"
  randomUUID :: jsstring
  now :: int

section \<open>The response object and \<open>JSON.stringify\<close>\<close>

record message =
  role :: jsstring
  content :: jsstring

record choice =
  index :: nat
  message :: message
  finish_reason :: jsstring

record usage =
  prompt_tokens :: nat
  completion_tokens :: nat
  total_tokens :: nat

record completion =
  id_field :: jsstring
  object :: jsstring
  created :: int
  model :: jsstring
  choices :: "choice list"
  usage :: usage

text \<open>
  A string in JSON text: quotes and backslashes escaped, control characters and lone
  surrogates written as \<open>\uXXXX\<close> or by their short escape.
\<close>

definition hex_digit :: "nat \<Rightarrow> jschar" where
  "hex_digit n = (if n < 10 then of_nat (48 + n) else of_nat (87 + n))"

definition unicode_escape :: "jschar \<Rightarrow> jsstring" where
  "unicode_escape c =
     [0x5C, 0x75, hex_digit (unat c div 4096), hex_digit (unat c div 256 mod 16),
      hex_digit (unat c div 16 mod 16), hex_digit (unat c mod 16)]"

definition is_surrogate :: "jschar \<Rightarrow> bool" where
  "is_surrogate c = (0xD800 \<le> c \<and> c \<le> 0xDFFF)"

definition quote_unit :: "jschar \<Rightarrow> jsstring" where
  "quote_unit c =
     (if c = 0x08 then [0x5C, 0x62]
      else if c = 0x09 then [0x5C, 0x74]
      else if c = 0x0A then [0x5C, 0x6E]
      else if c = 0x0C then [0x5C, 0x66]
      else if c = 0x0D then [0x5C, 0x72]
      else if c = 0x22 then [0x5C, 0x22]
      else if c = 0x5C then [0x5C, 0x5C]
      else if c < 0x20 \<or> is_surrogate c then unicode_escape c
      else [c])"

fun quote_units :: "jsstring \<Rightarrow> jsstring" where
  "quote_units [] = []"
| "quote_units [c] = quote_unit c"
| "quote_units (h # l # cs) =
     (if 0xD800 \<le> h \<and> h \<le> 0xDBFF \<and> 0xDC00 \<le> l \<and> l \<le> 0xDFFF
      then h # l # quote_units cs
      else quote_unit h @ quote_units (l # cs))"

definition quote_json :: "jsstring \<Rightarrow> jsstring" where
  "quote_json s = 0x22 # quote_units s @ [0x22]"

text \<open>An integer Number below \<open>10 ^ 21\<close> in size, as every time value is.\<close>

definition stringify_int :: "int \<Rightarrow> jsstring" where
  "stringify_int n = (if n < 0 then 0x2D # decimal_digits (nat (- n)) else decimal_digits (nat n))"

definition stringify_message :: "message \<Rightarrow> jsstring" where
  "stringify_message m =
     js ''{'' @ quote_json (js ''role'') @ js '':'' @ quote_json (role m) @ js '','' @
     quote_json (js ''content'') @ js '':'' @ quote_json (content m) @ js ''}''"

definition stringify_choice :: "choice \<Rightarrow> jsstring" where
  "stringify_choice c =
     js ''{'' @ quote_json (js ''index'') @ js '':'' @ stringify_int (int (index c)) @ js '','' @
     quote_json (js ''message'') @ js '':'' @ stringify_message (message c) @ js '','' @
     quote_json (js ''finish_reason'') @ js '':'' @ quote_json (finish_reason c) @ js ''}''"

definition stringify_usage :: "usage \<Rightarrow> jsstring" where
  "stringify_usage u =
     js ''{'' @ quote_json (js ''prompt_tokens'') @ js '':'' @ stringify_int (int (prompt_tokens u)) @ js '','' @
     quote_json (js ''completion_tokens'') @ js '':'' @ stringify_int (int (completion_tokens u)) @ js '','' @
     quote_json (js ''total_tokens'') @ js '':'' @ stringify_int (int (total_tokens u)) @ js ''}''"

definition JSON_stringify :: "completion \<Rightarrow> jsstring" where
  "JSON_stringify c =
     js ''{'' @ quote_json (js ''id'') @ js '':'' @ quote_json (id_field c) @ js '','' @
     quote_json (js ''object'') @ js '':'' @ quote_json (object c) @ js '','' @
     quote_json (js ''created'') @ js '':'' @ stringify_int (created c) @ js '','' @
     quote_json (js ''model'') @ js '':'' @ quote_json (model c) @ js '','' @
     quote_json (js ''choices'') @ js '':['' @ join_comma (map stringify_choice (choices c)) @ js ''],'' @
     quote_json (js ''usage'') @ js '':'' @ stringify_usage (usage c) @ js ''}''"

section \<open>The handlers\<close>

definition upstream_url :: jsstring where
  "upstream_url = js ''https://ai.enencloud.top/v1/chat/completions''"

definition default_model :: jsstring where
  "default_model = js ''@tx/deepseek-ai/deepseek-v3-0324''"

text \<open>\<open>upstream.headers.get('x-model') || '@tx/deepseek-ai/deepseek-v3-0324'\<close>\<close>

definition model_of :: "header_list \<Rightarrow> jsstring" where
  "model_of hs =
     (case headers_get hs (js ''x-model'') of
        None \<Rightarrow> default_model
      | Some v \<Rightarrow> if v \<noteq> [] then v else default_model)"

text \<open>The object handed to \<open>JSON.stringify\<close>.\<close>

definition completion_object :: "runtime \<Rightarrow> header_list \<Rightarrow> jsstring \<Rightarrow> completion" where
  "completion_object rt hs text =
     \<lparr>id_field = randomUUID rt,
      object = js ''chat.completion'',
      created = now rt,
      model = model_of hs,
      choices = [\<lparr>index = 0,
                  message = \<lparr>role = js ''assistant'', content = text\<rparr>,
                  finish_reason = js ''stop''\<rparr>],
      usage = \<lparr>prompt_tokens = 0, completion_tokens = 0, total_tokens = 0\<rparr>\<rparr>"

text \<open>
  \<open>onRequest\<close> of \<open>functions/v1/chat/completions/index.ts\<close>.  The argument \<open>ctx\<close> is used
  through its request only.  A rejected \<open>fetch\<close>, a body that is \<open>null\<close> and a failed read
  leave the handler as the exception they throw (\<open>Inl\<close>); nothing in the handler catches
  them.  The result comes with the calls of \<open>fetch\<close> and \<open>read\<close> made, in their order.
\<close>

definition onRequest :: "runtime \<Rightarrow> request \<Rightarrow> (js_error + response) \<times> effect list" where
  "onRequest rt req =
     (if request_method req \<noteq> js ''POST'' then
        (Inr (Response (js ''Method Not Allowed'') 405 []), [])
      else
        let call = Fetch upstream_url (js ''POST'') (request_headers req) (request_body req)
        in case fetch rt upstream_url (js ''POST'') (request_headers req) (request_body req) of
             Inl e \<Rightarrow> (Inl e, [call])
           | Inr upstream \<Rightarrow>
               (case upstream_body upstream of
                  None \<Rightarrow> (Inl TypeError, [call])
                | Some reader \<Rightarrow>
                    (case read_loop [] reader of
                       (Inl e, reads) \<Rightarrow> (Inl e, call # reads)
                     | (Inr text, reads) \<Rightarrow>
                         (Inr (Response
                                 (JSON_stringify
                                    (completion_object rt (upstream_headers upstream) text))
                                 200 [(js ''Content-Type'', js ''application/json'')]),
                          call # reads))))"

text \<open>
  \<open>onRequestPost\<close> of \<open>_functions/chat.ts\<close>: the same statements without the check of the
  method.
\<close>

definition onRequestPost :: "runtime \<Rightarrow> request \<Rightarrow> (js_error + response) \<times> effect list" where
  "onRequestPost rt req =
     (let call = Fetch upstream_url (js ''POST'') (request_headers req) (request_body req)
      in case fetch rt upstream_url (js ''POST'') (request_headers req) (request_body req) of
           Inl e \<Rightarrow> (Inl e, [call])
         | Inr upstream \<Rightarrow>
             (case upstream_body upstream of
                None \<Rightarrow> (Inl TypeError, [call])
              | Some reader \<Rightarrow>
                  (case read_loop [] reader of
                     (Inl e, reads) \<Rightarrow> (Inl e, call # reads)
                   | (Inr text, reads) \<Rightarrow>
                       (Inr (Response
                               (JSON_stringify
                                  (completion_object rt (upstream_headers upstream) text))
                               200 [(js ''Content-Type'', js ''application/json'')]),
                        call # reads))))"

section \<open>Notions used in the statements\<close>

text \<open>What one line adds to \<open>content\<close>.\<close>

definition fragment :: "jsstring \<Rightarrow> jsstring" where
  "fragment line = for_line [] line"

text \<open>The chunks of a body, whether it ends with \<open>done\<close>, and the lines the handler sees.\<close>

fun stream_chunks :: "stream \<Rightarrow> bytes list" where
  "stream_chunks Done = []"
| "stream_chunks Failed = []"
| "stream_chunks (Chunk v rest) = v # stream_chunks rest"

fun completes :: "stream \<Rightarrow> bool" where
  "completes Done = True"
| "completes Failed = False"
| "completes (Chunk v rest) = completes rest"

definition stream_lines :: "stream \<Rightarrow> jsstring list" where
  "stream_lines s = concat (map (\<lambda>v. split_nl (decode v)) (stream_chunks s))"

text \<open>
  The failure of the transport that a request meets, if any: the rejection of \<open>fetch\<close>, or
  a read that fails before the body has ended.
\<close>

definition transport_error :: "runtime \<Rightarrow> request \<Rightarrow> js_error option" where
  "transport_error rt req =
     (case fetch rt upstream_url (js ''POST'') (request_headers req) (request_body req) of
        Inl e \<Rightarrow> Some e
      | Inr up \<Rightarrow>
          (case upstream_body up of
             None \<Rightarrow> None
           | Some s \<Rightarrow> if completes s then None else Some NetworkError))"



text \<open>A \<open>data:\<close> line whose payload, trimmed, is the sentinel \<open>[DONE]\<close>.\<close>

definition is_sentinel :: "jsstring \<Rightarrow> bool" where
  "is_sentinel line = (startsWith line (js ''data:'') \<and> trim (slice_from line 5) = js ''[DONE]'')"

text \<open>
  The state of the decoder after some bytes, and whether a chunk begins with the bytes
  of a byte order mark.
\<close>

fun utf8_after :: "utf8_state \<Rightarrow> bytes \<Rightarrow> utf8_state" where
  "utf8_after st [] = st"
| "utf8_after st (b # bs) = utf8_after (snd (utf8_step st b)) bs"

definition starts_with_bom :: "bytes \<Rightarrow> bool" where
  "starts_with_bom v = (take 3 v = [0xEF, 0xBB, 0xBF])"

section \<open>Runtimes and requests for the examples\<close>

definition runtime_with :: "js_error + upstream_response \<Rightarrow> runtime" where
  "runtime_with answer =
     \<lparr>fetch = (\<lambda>url m hs b. answer),
      randomUUID = js ''3f2b8c1e-7a4d-4e9b-8f6a-1c2d3e4f5a6b'',
      now = 1700000000000\<rparr>"

definition request_with :: "string \<Rightarrow> request" where
  "request_with m = \<lparr>request_method = js m, request_headers = [], request_body = None\<rparr>"

definition utf8 :: "string \<Rightarrow> bytes" where
  "utf8 s = map of_char s"

definition upstream_with :: "header_list \<Rightarrow> stream \<Rightarrow> upstream_response" where
  "upstream_with hs s = \<lparr>upstream_status = 200, upstream_headers = hs, upstream_body = Some s\<rparr>"

text \<open>An event whose delta carries the content \<open>Hello\<close>, and an upstream that sends it.\<close>

definition hello_event :: string where
  \<open>hello_event = ''data: {"choices":[{"delta":{"content":"Hello"}}]}''\<close>

text \<open>Two shorter events, a line that is no JSON, and an event without choices.\<close>

definition event_a :: string where
  \<open>event_a = ''data: {"choices":[{"delta":{"content":"a"}}]}''\<close>

definition event_b :: string where
  \<open>event_b = ''data: {"choices":[{"delta":{"content":"b"}}]}''\<close>

definition no_choices_event :: string where
  \<open>no_choices_event = ''data: {"choices":[]}''\<close>

definition interleaved_stream :: stream where
  "interleaved_stream =
     Chunk (utf8 (event_a @ ''\<newline>data: not-json\<newline>'' @ no_choices_event @ ''\<newline>''))
       (Chunk (utf8 (event_b @ ''\<newline>'')) Done)"

text \<open>An event whose content is the boolean \<open>true\<close>.\<close>

definition true_event :: string where
  \<open>true_event = ''data: {"choices":[{"delta":{"content":true}}]}''\<close>


text \<open>The sentinel between two events.\<close>

definition sentinel_stream :: stream where
  "sentinel_stream =
     Chunk (utf8 (event_a @ ''\<newline>data: [DONE]\<newline>'' @ event_b @ ''\<newline>'')) Done"

text \<open>The bytes of \<open>hello_stream\<close> in two reads, the first ending inside the event.\<close>

definition split_stream :: stream where
  "split_stream =
     Chunk (utf8 (take 42 hello_event))
       (Chunk (utf8 (drop 42 hello_event @ ''\<newline>\<newline>'')) Done)"

definition hello_stream :: stream where
  "hello_stream = Chunk (utf8 (hello_event @ ''\<newline>\<newline>'')) Done"

text \<open>A second request, with headers and a body of its own.\<close>

definition other_request :: request where
  "other_request =
     \<lparr>request_method = js ''POST'',
      request_headers = [(js ''authorization'', js ''Bearer k''), (js ''x-model'', js ''mine'')],
      request_body = Some (utf8 ''{}'')\<rparr>"

text \<open>An upstream that sends the event and then drops the connection.\<close>

definition dropped_stream :: stream where
  "dropped_stream = Chunk (utf8 (hello_event @ ''\<newline>\<newline>'')) Failed"

text \<open>A body of comment lines only.\<close>

definition comment_stream :: stream where
  "comment_stream = Chunk (utf8 '': keep-alive\<newline>\<newline>'') Done"

section \<open>Lines and fragments\<close>

lemma split_nl_not_Nil: "split_nl s \<noteq> []"
  by (induction s) (auto split: list.splits)

lemma split_nl_append: "split_nl (a @ 0x0A # b) = split_nl a @ split_nl b"
proof (induction a)
  case Nil
  show ?case by simp
next
  case (Cons c a)
  obtain l ls where "split_nl a = l # ls"
    using split_nl_not_Nil [of a] by (cases "split_nl a") auto
  with Cons show ?case by simp
qed

lemma try_block_acc:
  "try_block c line = (case try_block [] line of Inl e \<Rightarrow> Inl e | Inr t \<Rightarrow> Inr (c @ t))"
  by (auto simp: try_block_def string_add_def split: option.splits sum.splits)

lemma for_line_acc: "for_line c line = c @ fragment line"
  unfolding fragment_def for_line_def
  by (subst try_block_acc) (auto split: sum.splits)

lemma foldl_for_line: "foldl for_line c ls = c @ concat (map fragment ls)"
proof (induction ls arbitrary: c)
  case Nil
  show ?case by simp
next
  case (Cons l ls)
  show ?case by (simp add: Cons.IH for_line_acc [of c l])
qed

lemma for_lines_fragments: "for_lines c chunk = c @ concat (map fragment (split_nl chunk))"
  by (simp add: for_lines_def foldl_for_line)

lemma fst_read_loop_Chunk:
  "fst (read_loop c (Chunk v rest)) = fst (read_loop (for_lines c (decode v)) rest)"
  by (simp split: prod.splits)

lemma snd_read_loop_Chunk:
  "snd (read_loop c (Chunk v rest)) = Read # snd (read_loop (for_lines c (decode v)) rest)"
  by (simp split: prod.splits)

lemma read_loop_effects: "snd (read_loop c s) = replicate (Suc (length (stream_chunks s))) Read"
proof (induction s arbitrary: c)
  case (Chunk v rest)
  show ?case
    by (simp add: snd_read_loop_Chunk Chunk.IH del: read_loop.simps)
qed simp_all

lemma read_loop_completes:
  "completes s \<Longrightarrow> fst (read_loop c s) = Inr (c @ concat (map fragment (stream_lines s)))"
proof (induction s arbitrary: c)
  case Done
  show ?case by (simp add: stream_lines_def)
next
  case Failed
  then show ?case by simp
next
  case (Chunk v rest)
  then have "fst (read_loop (for_lines c (decode v)) rest) =
      Inr (for_lines c (decode v) @ concat (map fragment (stream_lines rest)))"
    by simp
  then show ?case
    by (simp only: fst_read_loop_Chunk) (simp add: stream_lines_def for_lines_fragments)
qed

lemma read_loop_fails: "\<not> completes s \<Longrightarrow> fst (read_loop c s) = Inl NetworkError"
proof (induction s arbitrary: c)
  case (Chunk v rest)
  then show ?case by (simp add: fst_read_loop_Chunk del: read_loop.simps)
qed simp_all

lemma content_type_given:
  "headers_get [(js ''Content-Type'', js ''application/json'')] (js ''content-type'') =
     Some (js ''application/json'')"
  by (simp add: headers_get_def header_named_def ascii_lower_def js_def)

lemma onRequestPost_success:
  assumes "fetch rt upstream_url (js ''POST'') (request_headers req) (request_body req) = Inr up"
    and "upstream_body up = Some s"
    and "completes s"
  shows "onRequestPost rt req =
     (Inr \<lparr>status = 200,
           headers = [(js ''Content-Type'', js ''application/json'')],
           body = JSON_stringify
                    (completion_object rt (upstream_headers up) (concat (map fragment (stream_lines s))))\<rparr>,
      Fetch upstream_url (js ''POST'') (request_headers req) (request_body req)
        # replicate (Suc (length (stream_chunks s))) Read)"
proof -
  obtain r es where r: "read_loop [] s = (r, es)" by (cases "read_loop [] s")
  from read_loop_completes [OF assms(3), of "[]"] r
  have "r = Inr (concat (map fragment (stream_lines s)))" by simp
  moreover from read_loop_effects [of "[]" s] r
  have "es = replicate (Suc (length (stream_chunks s))) Read" by simp
  ultimately show ?thesis
    using assms(1,2) r content_type_given
    by (simp add: onRequestPost_def Response_def Let_def)
qed

lemma onRequest_cases:
  "onRequest rt req =
     (if request_method req \<noteq> js ''POST'' then
        (Inr (Response (js ''Method Not Allowed'') 405 []), [])
      else onRequestPost rt req)"
  by (simp add: onRequest_def onRequestPost_def)

lemma read_loop_Inr_completes: "fst (read_loop c s) = Inr text \<Longrightarrow> completes s"
  using read_loop_fails [of s c] by auto

lemma onRequest_success:
  assumes "request_method req = js ''POST''"
    and "fetch rt upstream_url (js ''POST'') (request_headers req) (request_body req) = Inr up"
    and "upstream_body up = Some s"
    and "fst (read_loop [] s) = Inr text"
  shows "onRequest rt req =
     (Inr \<lparr>status = 200,
           headers = [(js ''Content-Type'', js ''application/json'')],
           body = JSON_stringify (completion_object rt (upstream_headers up) text)\<rparr>,
      Fetch upstream_url (js ''POST'') (request_headers req) (request_body req)
        # replicate (Suc (length (stream_chunks s))) Read)"
proof -
  have c: "completes s" using assms(4) by (rule read_loop_Inr_completes)
  from read_loop_completes [OF c, of "[]"] assms(4)
  have "concat (map fragment (stream_lines s)) = text" by simp
  with onRequestPost_success [OF assms(2,3) c] assms(1) show ?thesis
    by (simp add: onRequest_cases)
qed

section \<open>Evaluation of the examples\<close>

lemmas text_defs = js_def utf8_def startsWith_def slice_from_def trim_def is_trim_space_def

lemmas decode_defs = decode_def utf8_step_def utf8_lead_def utf8_init_def strip_bom_def
  utf16_units_def

lemmas parse_defs = JSON_parse_def is_json_space_def is_digit_def digits_value_def hex_value_def
  hex4_def escape_char_def

lemmas value_defs = optional_delta_content_def delta_content_def member_def optional_member_def
  get_property_def array_index_def truthy_def string_add_def

lemmas line_defs = fragment_def for_line_def try_block_def

lemma js_POST: "request_method (request_with ''POST'') = js ''POST''"
  by (simp add: request_with_def)

lemma fetch_runtime_with: "fetch (runtime_with a) url m hs b = a"
  by (simp add: runtime_with_def)

lemma decode_hello: "decode (utf8 (hello_event @ ''\<newline>\<newline>'')) = js (hello_event @ ''\<newline>\<newline>'')"
  by (simp add: hello_event_def text_defs decode_defs)

lemma split_hello: "split_nl (js (hello_event @ ''\<newline>\<newline>'')) = [js hello_event, [], []]"
  by (simp add: hello_event_def js_def)

lemma fragment_hello: "fragment (js hello_event) = js ''Hello''"
  by (simp add: hello_event_def line_defs text_defs parse_defs value_defs)

lemma fragment_Nil: "fragment [] = []"
  by (simp add: line_defs text_defs)

lemma read_hello: "fst (read_loop [] hello_stream) = Inr (js ''Hello'')"
  by (simp add: hello_stream_def decode_hello split_hello for_lines_fragments fragment_hello
      fragment_Nil)

lemma fragment_a: "fragment (js event_a) = js ''a''"
  by (simp add: event_a_def line_defs text_defs parse_defs value_defs)

lemma fragment_b: "fragment (js event_b) = js ''b''"
  by (simp add: event_b_def line_defs text_defs parse_defs value_defs)

lemma fragment_true: "fragment (js true_event) = js ''true''"
  by (simp add: true_event_def line_defs text_defs parse_defs value_defs)

lemma interleaved_lines:
  "stream_lines interleaved_stream =
     [js event_a, js ''data: not-json'', js no_choices_event, [], js event_b, []]"
proof -
  have "decode (utf8 (event_a @ ''\<newline>data: not-json\<newline>'' @ no_choices_event @ ''\<newline>'')) =
      js (event_a @ ''\<newline>data: not-json\<newline>'' @ no_choices_event @ ''\<newline>'')"
    by (simp add: event_a_def no_choices_event_def text_defs decode_defs)
  moreover have "decode (utf8 (event_b @ ''\<newline>'')) = js (event_b @ ''\<newline>'')"
    by (simp add: event_b_def text_defs decode_defs)
  ultimately show ?thesis
    by (simp add: stream_lines_def interleaved_stream_def)
       (simp add: event_a_def event_b_def no_choices_event_def js_def)
qed

section \<open>What a parsed event adds\<close>

lemma optional_member_Some:
  "optional_member base k = Some v \<Longrightarrow> member base k = Inr (Some v)"
  by (auto simp: optional_member_def member_def split: option.splits json.splits)

lemma delta_content_exists:
  assumes "optional_delta_content data = Inr (Some v)"
  shows "delta_content data = Inr (Some v)"
proof -
  from assms obtain choices where c: "member (Some data) (js ''choices'') = Inr choices"
    and v: "optional_member (optional_member (optional_member choices (js ''0'')) (js ''delta''))
              (js ''content'') = Some v"
    by (auto simp: optional_delta_content_def split: sum.splits)
  from v obtain delta where d: "optional_member (optional_member choices (js ''0'')) (js ''delta'') = Some delta"
    by (cases "optional_member (optional_member choices (js ''0'')) (js ''delta'')")
       (auto simp: optional_member_def)
  from d obtain choice where ch: "optional_member choices (js ''0'') = Some choice"
    by (cases "optional_member choices (js ''0'')") (auto simp: optional_member_def)
  from v d have "member (Some delta) (js ''content'') = Inr (Some v)"
    by (simp add: optional_member_Some)
  moreover from d ch have "member (Some choice) (js ''delta'') = Inr (Some delta)"
    by (simp add: optional_member_Some)
  moreover from ch have "member choices (js ''0'') = Inr (Some choice)"
    by (simp add: optional_member_Some)
  ultimately show ?thesis using c by (simp add: delta_content_def)
qed

lemma for_line_parsed:
  assumes "startsWith line (js ''data:'')"
    and "JSON_parse (trim (slice_from line 5)) = Some data"
  shows "for_line c line =
     (case optional_delta_content data of
        Inl e \<Rightarrow> c
      | Inr None \<Rightarrow> c
      | Inr (Some v) \<Rightarrow>
          if truthy (Some v) then (case to_string v of None \<Rightarrow> c | Some t \<Rightarrow> c @ t) else c)"
proof (cases "optional_delta_content data")
  case (Inl e)
  with assms show ?thesis by (simp add: for_line_def try_block_def)
next
  case (Inr r)
  show ?thesis
  proof (cases r)
    case None
    with Inr assms show ?thesis by (simp add: for_line_def try_block_def truthy_def)
  next
    case (Some v)
    with Inr have "delta_content data = Inr (Some v)" by (simp add: delta_content_exists)
    with Inr Some assms show ?thesis
      by (simp add: for_line_def try_block_def string_add_def split: option.splits)
  qed
qed


lemma skip_empty_fragments:
  "\<forall>l \<in> set ls. P l \<longrightarrow> fragment l = [] \<Longrightarrow>
   concat (map fragment (filter (\<lambda>l. \<not> P l) ls)) = concat (map fragment ls)"
  by (induction ls) auto

section \<open>The decoder across reads\<close>

lemma and_3F: "unat ((b :: 8 word) AND 0x3F) = unat b mod 64"
proof -
  have "(0x3F :: 8 word) = mask 6" by (simp add: mask_eq_exp_minus_1)
  then have "b AND 0x3F = take_bit 6 b" by (simp add: take_bit_eq_mask)
  then show ?thesis by (simp add: unsigned_take_bit_eq take_bit_eq_mod unat_mod_distrib)
qed

lemma and_1F: "unat ((b :: 8 word) AND 0x1F) = unat b mod 32"
proof -
  have "(0x1F :: 8 word) = mask 5" by (simp add: mask_eq_exp_minus_1)
  then have "b AND 0x1F = take_bit 5 b" by (simp add: take_bit_eq_mask)
  then show ?thesis by (simp add: unsigned_take_bit_eq take_bit_eq_mod unat_mod_distrib)
qed

lemma and_F: "unat ((b :: 8 word) AND 0xF) = unat b mod 16"
proof -
  have "(0xF :: 8 word) = mask 4" by (simp add: mask_eq_exp_minus_1)
  then have "b AND 0xF = take_bit 4 b" by (simp add: take_bit_eq_mask)
  then show ?thesis by (simp add: unsigned_take_bit_eq take_bit_eq_mod unat_mod_distrib)
qed

lemma and_7: "unat ((b :: 8 word) AND 0x7) = unat b mod 8"
proof -
  have "(0x7 :: 8 word) = mask 3" by (simp add: mask_eq_exp_minus_1)
  then have "b AND 0x7 = take_bit 3 b" by (simp add: take_bit_eq_mask)
  then show ?thesis by (simp add: unsigned_take_bit_eq take_bit_eq_mod unat_mod_distrib)
qed

lemma mod_shift:
  fixes n a c :: nat
  assumes "a * c \<le> n" and "n < a * c + a"
  shows "n mod a = n - a * c"
proof -
  from assms(1) obtain k where k: "n = a * c + k" by (metis le_Suc_ex)
  with assms(2) have "k < a" by simp
  with k show ?thesis by simp
qed

lemma four_arith:
  fixes n1 n2 n3 n4 :: nat
  assumes "240 \<le> n1" "n1 \<le> 244" "n1 = 240 \<longrightarrow> 144 \<le> n2" "128 \<le> n2" "n2 \<le> 191"
   and "((n1 mod 8 * 64 + n2 mod 64) * 64 + n3 mod 64) * 64 + n4 mod 64 = 65279"
  shows False
proof -
  have m1: "n1 mod 8 = n1 - 240" using mod_shift [of 8 30 n1] assms(1,2) by simp
  have m2: "n2 mod 64 = n2 - 128" using mod_shift [of 64 2 n2] assms(4,5) by simp
  have "16 \<le> n1 mod 8 * 64 + n2 mod 64"
    using assms(1,2,3,4,5) unfolding m1 m2 by (cases "n1 = 240") auto
  then have "16 * 64 \<le> (n1 mod 8 * 64 + n2 mod 64) * 64"
    by simp
  then have "16 * 64 * 64 \<le> ((n1 mod 8 * 64 + n2 mod 64) * 64 + n3 mod 64) * 64"
    by simp
  with assms(6) show False by simp
qed

lemma three_arith:
  fixes n1 n2 n3 :: nat
  assumes "224 \<le> n1" "n1 \<le> 239" "128 \<le> n2" "n2 \<le> 191" "128 \<le> n3" "n3 \<le> 191"
    and "(n1 mod 16 * 64 + n2 mod 64) * 64 + n3 mod 64 = 65279"
  shows "n1 = 239 \<and> n2 = 187 \<and> n3 = 191"
proof -
  define a b c where "a = n1 - 224" and "b = n2 - 128" and "c = n3 - 128"
  have m1: "n1 mod 16 = a" using mod_shift [of 16 14 n1] assms(1,2) by (simp add: a_def)
  have m2: "n2 mod 64 = b" using mod_shift [of 64 2 n2] assms(3,4) by (simp add: b_def)
  have m3: "n3 mod 64 = c" using mod_shift [of 64 2 n3] assms(5,6) by (simp add: c_def)
  have bounds: "b < 64" "c < 64" using assms(4,6) by (simp_all add: b_def c_def)
  define x where "x = a * 64 + b"
  from assms(7) have eq: "x * 64 + c = 65279" by (simp only: m1 m2 m3 x_def)
  from bounds have "(x * 64 + c) mod 64 = c" by simp
  with eq have c: "c = 63" by simp
  from bounds have "(x * 64 + c) div 64 = x" by simp
  with eq have ab: "a * 64 + b = 1019" by (simp add: x_def)
  from bounds have "(a * 64 + b) mod 64 = b" by simp
  with ab have b: "b = 59" by simp
  from bounds have "(a * 64 + b) div 64 = a" by simp
  with ab have a: "a = 15" by simp
  from a b c assms(1,3,5) show ?thesis unfolding a_def b_def c_def by linarith
qed

lemma two_arith:
  fixes n1 n2 :: nat
  assumes "n1 mod 32 * 64 + n2 mod 64 = 65279"
  shows False
proof -
  have "n1 mod 32 < 32" "n2 mod 64 < 64" by simp_all
  then have "n1 mod 32 * 64 + n2 mod 64 < 32 * 64 + 64" by linarith
  with assms show False by simp
qed

lemma lower_after_lead: "0x80 \<le> lower_boundary (snd (utf8_lead b))"
  by (simp add: utf8_lead_def utf8_init_def)

lemma lower_after_step: "0x80 \<le> lower_boundary (snd (utf8_step st b))"
  by (simp add: utf8_step_def Let_def lower_after_lead utf8_init_def)

lemma step_line_feed:
  assumes "0x80 \<le> lower_boundary st"
  shows "snd (utf8_step st 0x0A) = utf8_init"
    and "fst (utf8_step st 0x0A) = [0x0A] \<or> fst (utf8_step st 0x0A) = [0xFFFD, 0x0A]"
proof -
  have l: "utf8_lead 0x0A = ([0x0A], utf8_init)" by (simp add: utf8_lead_def)
  have "\<not> lower_boundary st \<le> 0x0A"
    using assms by (simp add: word_le_nat_alt)
  then show "snd (utf8_step st 0x0A) = utf8_init"
    and "fst (utf8_step st 0x0A) = [0x0A] \<or> fst (utf8_step st 0x0A) = [0xFFFD, 0x0A]"
    by (simp_all add: utf8_step_def l)
qed

lemma run_lead:
  "utf8_run utf8_init (b # bs) = fst (utf8_lead b) @ utf8_run (snd (utf8_lead b)) bs"
  by (simp add: utf8_step_def utf8_init_def)

lemma run_last_byte:
  assumes "utf8_run \<lparr>code_point = cp, bytes_seen = sn, bytes_needed = Suc sn,
                      lower_boundary = lo, upper_boundary = up\<rparr> bs = 0xFEFF # out"
  obtains b r where "bs = b # r" and "lo \<le> b" and "b \<le> up"
    and "cp * 64 + unat b mod 64 = 0xFEFF"
proof (cases bs)
  case Nil
  with assms show ?thesis by simp
next
  case (Cons b r)
  with assms have "lo \<le> b \<and> b \<le> up \<and> cp * 64 + unat b mod 64 = 0xFEFF"
    by (auto simp: utf8_step_def Let_def and_3F split: if_splits)
  with Cons that show ?thesis by blast
qed

lemma run_inner_byte:
  assumes "utf8_run \<lparr>code_point = cp, bytes_seen = sn, bytes_needed = nd,
                      lower_boundary = lo, upper_boundary = up\<rparr> bs = 0xFEFF # out"
    and "nd \<noteq> 0" and "Suc sn \<noteq> nd"
  obtains b r where "bs = b # r" and "lo \<le> b" and "b \<le> up"
    and "utf8_run \<lparr>code_point = cp * 64 + unat b mod 64, bytes_seen = Suc sn, bytes_needed = nd,
                    lower_boundary = 0x80, upper_boundary = 0xBF\<rparr> r = 0xFEFF # out"
proof (cases bs)
  case Nil
  with assms show ?thesis by simp
next
  case (Cons b r)
  with assms have "lo \<le> b \<and> b \<le> up \<and>
      utf8_run \<lparr>code_point = cp * 64 + unat b mod 64, bytes_seen = Suc sn, bytes_needed = nd,
                lower_boundary = 0x80, upper_boundary = 0xBF\<rparr> r = 0xFEFF # out"
    by (auto simp: utf8_step_def Let_def and_3F split: if_splits)
  with Cons that show ?thesis by blast
qed

lemma lead_two:
  "0xC2 \<le> b \<Longrightarrow> b \<le> 0xDF \<Longrightarrow>
   utf8_lead b = ([], \<lparr>code_point = unat b mod 32, bytes_seen = 0, bytes_needed = 1,
                       lower_boundary = 0x80, upper_boundary = 0xBF\<rparr>)"
  by (auto simp: utf8_lead_def utf8_init_def and_1F word_le_nat_alt)

lemma lead_three:
  "0xE0 \<le> b \<Longrightarrow> b \<le> 0xEF \<Longrightarrow>
   utf8_lead b =
     ([], \<lparr>code_point = unat b mod 16, bytes_seen = 0, bytes_needed = 2,
           lower_boundary = (if b = 0xE0 then 0xA0 else 0x80),
           upper_boundary = (if b = 0xED then 0x9F else 0xBF)\<rparr>)"
  by (auto simp: utf8_lead_def utf8_init_def and_F word_le_nat_alt)

lemma lead_four:
  "0xF0 \<le> b \<Longrightarrow> b \<le> 0xF4 \<Longrightarrow>
   utf8_lead b =
     ([], \<lparr>code_point = unat b mod 8, bytes_seen = 0, bytes_needed = 3,
           lower_boundary = (if b = 0xF0 then 0x90 else 0x80),
           upper_boundary = (if b = 0xF4 then 0x8F else 0xBF)\<rparr>)"
  by (auto simp: utf8_lead_def utf8_init_def and_7 word_le_nat_alt)

lemma lead_other:
  "\<not> (0xC2 \<le> b \<and> b \<le> 0xDF) \<Longrightarrow> \<not> (0xE0 \<le> b \<and> b \<le> 0xEF) \<Longrightarrow>
   \<not> (0xF0 \<le> b \<and> b \<le> 0xF4) \<Longrightarrow>
   utf8_lead b = ([unat b], utf8_init) \<or> utf8_lead b = ([0xFFFD], utf8_init)"
  by (auto simp: utf8_lead_def)

lemma bom_head:
  assumes "utf8_run utf8_init v = 0xFEFF # out"
  shows "starts_with_bom v"
proof (cases v)
  case Nil
  with assms show ?thesis by (simp add: utf8_init_def)
next
  case (Cons b1 rest)
  with assms have run: "fst (utf8_lead b1) @ utf8_run (snd (utf8_lead b1)) rest = 0xFEFF # out"
    by (simp only: run_lead)
  have small: "unat b1 < 256" using unsigned_less [of b1] by simp
  consider (two) "0xC2 \<le> b1 \<and> b1 \<le> 0xDF"
    | (three) "0xE0 \<le> b1 \<and> b1 \<le> 0xEF"
    | (four) "0xF0 \<le> b1 \<and> b1 \<le> 0xF4"
    | (other) "\<not> (0xC2 \<le> b1 \<and> b1 \<le> 0xDF)" "\<not> (0xE0 \<le> b1 \<and> b1 \<le> 0xEF)"
        "\<not> (0xF0 \<le> b1 \<and> b1 \<le> 0xF4)"
    by blast
  then show ?thesis
  proof cases
    case other
    from lead_other [OF other] run small show ?thesis by auto
  next
    case two
    with run have "utf8_run \<lparr>code_point = unat b1 mod 32, bytes_seen = 0, bytes_needed = Suc 0,
        lower_boundary = 0x80, upper_boundary = 0xBF\<rparr> rest = 0xFEFF # out"
      by (simp add: lead_two)
    then obtain b :: "8 word" where "unat b1 mod 32 * 64 + unat b mod 64 = 0xFEFF"
      by (rule run_last_byte) blast
    then show ?thesis using two_arith by blast
  next
    case three
    with run have "utf8_run \<lparr>code_point = unat b1 mod 16, bytes_seen = 0, bytes_needed = 2,
        lower_boundary = (if b1 = 0xE0 then 0xA0 else 0x80),
        upper_boundary = (if b1 = 0xED then 0x9F else 0xBF)\<rparr> rest = 0xFEFF # out"
      by (simp add: lead_three)
    then obtain b2 r2 where rest: "rest = b2 # r2"
      and b2: "(if b1 = 0xE0 then 0xA0 else 0x80) \<le> b2" "b2 \<le> (if b1 = 0xED then 0x9F else 0xBF)"
      and run2: "utf8_run \<lparr>code_point = unat b1 mod 16 * 64 + unat b2 mod 64, bytes_seen = Suc 0,
          bytes_needed = 2, lower_boundary = 0x80, upper_boundary = 0xBF\<rparr> r2 = 0xFEFF # out"
      by (rule run_inner_byte) simp_all
    from run2 have "utf8_run \<lparr>code_point = unat b1 mod 16 * 64 + unat b2 mod 64, bytes_seen = Suc 0,
          bytes_needed = Suc (Suc 0), lower_boundary = 0x80, upper_boundary = 0xBF\<rparr> r2 = 0xFEFF # out"
      by (simp add: numeral_2_eq_2)
    then obtain b3 r3 where r2: "r2 = b3 # r3"
      and b3: "0x80 \<le> b3" "b3 \<le> 0xBF"
      and cp: "(unat b1 mod 16 * 64 + unat b2 mod 64) * 64 + unat b3 mod 64 = 0xFEFF"
      by (rule run_last_byte)
    from three b3 have "224 \<le> unat b1" "unat b1 \<le> 239" "128 \<le> unat b3" "unat b3 \<le> 191"
      by (simp_all add: word_le_nat_alt)
    moreover from b2 have "128 \<le> unat b2" "unat b2 \<le> 191"
      by (auto simp: word_le_nat_alt split: if_splits)
    ultimately have "unat b1 = 239 \<and> unat b2 = 187 \<and> unat b3 = 191"
      using cp by (intro three_arith) simp_all
    then have "b1 = 0xEF" "b2 = 0xBB" "b3 = 0xBF"
      by (simp_all add: word_unat_eq_iff)
    with Cons rest r2 show ?thesis by (simp add: starts_with_bom_def)
  next
    case four
    with run have "utf8_run \<lparr>code_point = unat b1 mod 8, bytes_seen = 0, bytes_needed = 3,
        lower_boundary = (if b1 = 0xF0 then 0x90 else 0x80),
        upper_boundary = (if b1 = 0xF4 then 0x8F else 0xBF)\<rparr> rest = 0xFEFF # out"
      by (simp add: lead_four)
    then obtain b2 :: "8 word" and r2 where
      b2: "(if b1 = 0xF0 then 0x90 else 0x80) \<le> b2" "b2 \<le> (if b1 = 0xF4 then 0x8F else 0xBF)"
      and run2: "utf8_run \<lparr>code_point = unat b1 mod 8 * 64 + unat b2 mod 64, bytes_seen = Suc 0,
          bytes_needed = 3, lower_boundary = 0x80, upper_boundary = 0xBF\<rparr> r2 = 0xFEFF # out"
      by (rule run_inner_byte) (simp, simp, blast)
    from run2 obtain b3 :: "8 word" and r3 where
      run3: "utf8_run \<lparr>code_point = (unat b1 mod 8 * 64 + unat b2 mod 64) * 64 + unat b3 mod 64,
          bytes_seen = Suc (Suc 0), bytes_needed = 3, lower_boundary = 0x80,
          upper_boundary = 0xBF\<rparr> r3 = 0xFEFF # out"
      by (rule run_inner_byte) (simp, simp, blast)
    from run3 have "utf8_run \<lparr>code_point = (unat b1 mod 8 * 64 + unat b2 mod 64) * 64 + unat b3 mod 64,
          bytes_seen = Suc (Suc 0), bytes_needed = Suc (Suc (Suc 0)), lower_boundary = 0x80,
          upper_boundary = 0xBF\<rparr> r3 = 0xFEFF # out"
      by (simp add: numeral_3_eq_3)
    then obtain b4 :: "8 word" where
      cp: "((unat b1 mod 8 * 64 + unat b2 mod 64) * 64 + unat b3 mod 64) * 64 + unat b4 mod 64 = 0xFEFF"
      by (rule run_last_byte) blast
    from four have b1: "240 \<le> unat b1" "unat b1 \<le> 244"
      by (simp_all add: word_le_nat_alt)
    from b2(1) have "unat b1 = 240 \<longrightarrow> 144 \<le> unat b2"
      by (auto simp: word_le_nat_alt word_unat_eq_iff split: if_splits)
    moreover from b2(1) have "128 \<le> unat b2"
      by (auto simp: word_le_nat_alt split: if_splits)
    moreover from b2(2) have "unat b2 \<le> 191"
      by (auto simp: word_le_nat_alt split: if_splits)
    ultimately have False using cp b1 by (intro four_arith [of "unat b1" "unat b2"]) simp_all
    then show ?thesis ..
  qed
qed

lemma lower_after: "0x80 \<le> lower_boundary st \<Longrightarrow> 0x80 \<le> lower_boundary (utf8_after st bs)"
  by (induction bs arbitrary: st) (simp_all add: lower_after_step)

lemma after_append: "utf8_after st (a @ b) = utf8_after (utf8_after st a) b"
  by (induction a arbitrary: st) simp_all

lemma after_line_feed:
  "0x80 \<le> lower_boundary st \<Longrightarrow> utf8_after st (a @ [0x0A]) = utf8_init"
  by (simp add: after_append step_line_feed(1) lower_after)

lemma run_append:
  "utf8_after st a = utf8_init \<Longrightarrow> utf8_run st (a @ b) = utf8_run st a @ utf8_run utf8_init b"
proof (induction a arbitrary: st)
  case Nil
  then show ?case by (simp add: utf8_init_def)
next
  case (Cons x a)
  then show ?case by simp
qed

lemma run_line_feed:
  "0x80 \<le> lower_boundary st \<Longrightarrow> \<exists>pre. utf8_run st (a @ [0x0A]) = pre @ [0x0A]"
proof (induction a arbitrary: st)
  case Nil
  from step_line_feed [OF Nil] show ?case
    by (auto simp: utf8_init_def)
next
  case (Cons x a)
  from Cons.IH [OF lower_after_step, of st x] obtain pre where
    "utf8_run (snd (utf8_step st x)) (a @ [0x0A]) = pre @ [0x0A]" by blast
  then have "utf8_run st ((x # a) @ [0x0A]) = (fst (utf8_step st x) @ pre) @ [0x0A]"
    by simp
  then show ?case by blast
qed

lemma init_lower: "0x80 \<le> lower_boundary utf8_init"
  by (simp add: utf8_init_def)

lemma runs_concat:
  assumes "\<forall>v \<in> set (butlast vs). v \<noteq> [] \<and> last v = 0x0A"
  shows "utf8_run utf8_init (concat vs) = concat (map (utf8_run utf8_init) vs)"
  using assms
proof (induction vs rule: induct_list012)
  case 1
  show ?case by (simp add: utf8_init_def)
next
  case (2 v)
  show ?case by simp
next
  case (3 v w vs)
  from "3.prems" have "v \<noteq> []" "last v = 0x0A" by simp_all
  then have v: "v = butlast v @ [0x0A]" by (metis append_butlast_last_id)
  have "utf8_after utf8_init v = utf8_init"
    by (subst v) (rule after_line_feed [OF init_lower])
  then have "utf8_run utf8_init (v @ concat (w # vs)) =
      utf8_run utf8_init v @ utf8_run utf8_init (concat (w # vs))"
    by (rule run_append)
  moreover from "3.prems" have "\<forall>x \<in> set (butlast (w # vs)). x \<noteq> [] \<and> last x = 0x0A"
    by simp
  then have "utf8_run utf8_init (concat (w # vs)) = concat (map (utf8_run utf8_init) (w # vs))"
    by (rule "3.IH"(2))
  ultimately show ?case by simp
qed

lemma no_bom_strip: "\<not> starts_with_bom v \<Longrightarrow> strip_bom (utf8_run utf8_init v) = utf8_run utf8_init v"
  using bom_head [of v] by (auto simp: strip_bom_def split: list.splits)

lemma strip_bom_append: "xs \<noteq> [] \<Longrightarrow> strip_bom (xs @ ys) = strip_bom xs @ ys"
  by (cases xs) (simp_all add: strip_bom_def)

lemma run_line_feed_init:
  assumes "v \<noteq> []" and "last v = 0x0A"
  shows "\<exists>pre. utf8_run utf8_init v = pre @ [0x0A]"
proof -
  from assms have "v = butlast v @ [0x0A]" by (metis append_butlast_last_id)
  with run_line_feed [OF init_lower, of "butlast v"] show ?thesis by simp
qed

lemma decode_line_feed:
  assumes "v \<noteq> []" and "last v = 0x0A"
  shows "decode v \<noteq> [] \<and> last (decode v) = 0x0A"
proof -
  from run_line_feed_init [OF assms] obtain pre where pre: "utf8_run utf8_init v = pre @ [0x0A]"
    by blast
  have "strip_bom (pre @ [0x0A]) = strip_bom pre @ [0x0A]"
    by (cases pre) (simp_all add: strip_bom_def)
  with pre have "decode v = concat (map utf16_units (strip_bom pre)) @ [0x0A]"
    by (simp add: decode_def utf16_units_def)
  then show ?thesis by simp
qed

lemma decode_concat:
  assumes "\<forall>v \<in> set (butlast vs). v \<noteq> [] \<and> last v = 0x0A"
    and "\<forall>v \<in> set (tl vs). \<not> starts_with_bom v"
  shows "decode (concat vs) = concat (map decode vs)"
proof (cases vs)
  case Nil
  show ?thesis by (simp add: Nil decode_def strip_bom_def utf8_init_def)
next
  case (Cons v ws)
  show ?thesis
  proof (cases ws)
    case Nil
    with Cons show ?thesis by simp
  next
    case (Cons w ws')
    with \<open>vs = v # ws\<close> assms(1) have "v \<noteq> []" "last v = 0x0A" by simp_all
    from run_line_feed_init [OF this] have ne: "utf8_run utf8_init v \<noteq> []" by auto
    from assms(2) \<open>vs = v # ws\<close> have "\<forall>x \<in> set ws. strip_bom (utf8_run utf8_init x) = utf8_run utf8_init x"
      by (simp add: no_bom_strip)
    then have later: "concat (map decode ws) =
        concat (map utf16_units (concat (map (utf8_run utf8_init) ws)))"
      by (induction ws) (simp_all add: decode_def)
    from runs_concat [OF assms(1)] \<open>vs = v # ws\<close>
    have "utf8_run utf8_init (concat vs) = utf8_run utf8_init v @ concat (map (utf8_run utf8_init) ws)"
      by simp
    then have "decode (concat vs) =
        concat (map utf16_units (strip_bom (utf8_run utf8_init v)))
        @ concat (map utf16_units (concat (map (utf8_run utf8_init) ws)))"
      by (simp add: decode_def strip_bom_append [OF ne])
    with later \<open>vs = v # ws\<close> show ?thesis by (simp add: decode_def)
  qed
qed

section \<open>The method check\<close>

lemma js_GET_not_POST: "js ''GET'' \<noteq> js ''POST''"
  by (simp add: js_def)

text \<open>
  C4.  A request whose method is not \<open>POST\<close> is answered with status 405 and the
  plain-text body \<open>Method Not Allowed\<close>; the handler performs no effect, so \<open>fetch\<close> is
  never called.
\<close>

theorem onRequest_not_POST:
  assumes "request_method req \<noteq> js ''POST''"
  shows "onRequest rt req =
           (Inr \<lparr>status = 405,
                 headers = [(js ''content-type'', js ''text/plain;charset=UTF-8'')],
                 body = js ''Method Not Allowed''\<rparr>, [])"
proof -
  have "headers_get [] (js ''content-type'') = None"
    by (simp add: headers_get_def)
  with assms show ?thesis
    by (simp add: onRequest_cases Response_def)
qed

theorem onRequest_not_POST_witness:
  "onRequest (runtime_with (Inl NetworkError)) (request_with ''GET'') =
     (Inr \<lparr>status = 405,
           headers = [(js ''content-type'', js ''text/plain;charset=UTF-8'')],
           body = js ''Method Not Allowed''\<rparr>, [])"
  using onRequest_not_POST [of "request_with ''GET''" "runtime_with (Inl NetworkError)"]
    js_GET_not_POST
  by (simp add: request_with_def)

section \<open>The response to a body that was read to its end\<close>

text \<open>
  C5.  When the request is a \<open>POST\<close>, \<open>fetch\<close> resolves and the read loop ends with the
  content \<open>text\<close>, the handler answers with status 200, the content type
  \<open>application/json\<close> and the JSON text of an object whose \<open>object\<close> is
  \<open>chat.completion\<close>, whose \<open>choices\<close> hold one choice with index 0, the role \<open>assistant\<close>,
  the content \<open>text\<close> and the finish reason \<open>stop\<close>, and whose three usage counters are 0.
\<close>

theorem onRequest_envelope:
  assumes "request_method req = js ''POST''"
    and "fetch rt upstream_url (js ''POST'') (request_headers req) (request_body req) = Inr up"
    and "upstream_body up = Some s"
    and "fst (read_loop [] s) = Inr text"
  shows "fst (onRequest rt req) =
     Inr \<lparr>status = 200,
          headers = [(js ''Content-Type'', js ''application/json'')],
          body = JSON_stringify
            \<lparr>id_field = randomUUID rt,
             object = js ''chat.completion'',
             created = now rt,
             model = model_of (upstream_headers up),
             choices = [\<lparr>index = 0,
                         message = \<lparr>role = js ''assistant'', content = text\<rparr>,
                         finish_reason = js ''stop''\<rparr>],
             usage = \<lparr>prompt_tokens = 0, completion_tokens = 0, total_tokens = 0\<rparr>\<rparr>\<rparr>"
  using onRequest_success [OF assms] by (simp add: completion_object_def)

theorem onRequest_envelope_witness:
  "fst (onRequest (runtime_with (Inr (upstream_with [] hello_stream))) (request_with ''POST'')) =
     Inr \<lparr>status = 200,
          headers = [(js ''Content-Type'', js ''application/json'')],
          body = JSON_stringify
            \<lparr>id_field = js ''3f2b8c1e-7a4d-4e9b-8f6a-1c2d3e4f5a6b'',
             object = js ''chat.completion'',
             created = 1700000000000,
             model = js ''@tx/deepseek-ai/deepseek-v3-0324'',
             choices = [\<lparr>index = 0,
                         message = \<lparr>role = js ''assistant'', content = js ''Hello''\<rparr>,
                         finish_reason = js ''stop''\<rparr>],
             usage = \<lparr>prompt_tokens = 0, completion_tokens = 0, total_tokens = 0\<rparr>\<rparr>\<rparr>"
proof -
  have "model_of [] = js ''@tx/deepseek-ai/deepseek-v3-0324''"
    by (simp add: model_of_def headers_get_def default_model_def)
  then show ?thesis
    using onRequest_envelope [of "request_with ''POST''"
        "runtime_with (Inr (upstream_with [] hello_stream))" "upstream_with [] hello_stream"
        hello_stream "js ''Hello''"]
      js_POST read_hello
    by (simp add: fetch_runtime_with upstream_with_def) (simp add: runtime_with_def)
qed

section \<open>The model field\<close>

text \<open>
  C6, as stated, fails: an \<open>x-model\<close> header that is present with the empty value does not
  become the model; the default does.
\<close>

theorem empty_model_header_gives_default:
  "headers_get [(js ''x-model'', [])] (js ''x-model'') = Some []
   \<and> fst (onRequest (runtime_with (Inr (upstream_with [(js ''x-model'', [])] Done)))
          (request_with ''POST'')) =
     Inr \<lparr>status = 200,
          headers = [(js ''Content-Type'', js ''application/json'')],
          body = JSON_stringify
            \<lparr>id_field = js ''3f2b8c1e-7a4d-4e9b-8f6a-1c2d3e4f5a6b'',
             object = js ''chat.completion'',
             created = 1700000000000,
             model = js ''@tx/deepseek-ai/deepseek-v3-0324'',
             choices = [\<lparr>index = 0,
                         message = \<lparr>role = js ''assistant'', content = []\<rparr>,
                         finish_reason = js ''stop''\<rparr>],
             usage = \<lparr>prompt_tokens = 0, completion_tokens = 0, total_tokens = 0\<rparr>\<rparr>\<rparr>"
proof -
  have h: "headers_get [(js ''x-model'', [])] (js ''x-model'') = Some []"
    by (simp add: headers_get_def header_named_def)
  have "fst (read_loop [] Done) = Inr []" by simp
  from onRequest_success [OF js_POST _ _ this,
      of "runtime_with (Inr (upstream_with [(js ''x-model'', [])] Done))"
         "upstream_with [(js ''x-model'', [])] Done"]
  have "onRequest (runtime_with (Inr (upstream_with [(js ''x-model'', [])] Done)))
          (request_with ''POST'') =
     (Inr \<lparr>status = 200,
           headers = [(js ''Content-Type'', js ''application/json'')],
           body = JSON_stringify
             (completion_object (runtime_with (Inr (upstream_with [(js ''x-model'', [])] Done)))
                [(js ''x-model'', [])] [])\<rparr>,
      [Fetch upstream_url (js ''POST'') [] None, Read])"
    by (simp add: fetch_runtime_with upstream_with_def request_with_def)
  then show ?thesis
    using h by (simp add: completion_object_def model_of_def default_model_def runtime_with_def)
qed

text \<open>
  C6, amended.  In the response to a body read to its end, the model is the value of the
  upstream header \<open>x-model\<close> when the header is present with a value that is not empty, and
  the literal \<open>@tx/deepseek-ai/deepseek-v3-0324\<close> when the header is absent or empty.
\<close>

theorem onRequest_model:
  assumes "request_method req = js ''POST''"
    and "fetch rt upstream_url (js ''POST'') (request_headers req) (request_body req) = Inr up"
    and "upstream_body up = Some s"
    and "fst (read_loop [] s) = Inr text"
  shows "\<exists>c. fst (onRequest rt req) =
            Inr \<lparr>status = 200,
                 headers = [(js ''Content-Type'', js ''application/json'')],
                 body = JSON_stringify c\<rparr>
          \<and> model c =
              (case headers_get (upstream_headers up) (js ''x-model'') of
                 None \<Rightarrow> js ''@tx/deepseek-ai/deepseek-v3-0324''
               | Some v \<Rightarrow> if v = [] then js ''@tx/deepseek-ai/deepseek-v3-0324'' else v)"
proof -
  let ?c = "completion_object rt (upstream_headers up) text"
  have "model ?c =
      (case headers_get (upstream_headers up) (js ''x-model'') of
         None \<Rightarrow> js ''@tx/deepseek-ai/deepseek-v3-0324''
       | Some v \<Rightarrow> if v = [] then js ''@tx/deepseek-ai/deepseek-v3-0324'' else v)"
    by (simp add: completion_object_def model_of_def default_model_def split: option.splits)
  with onRequest_success [OF assms] show ?thesis by auto
qed

theorem onRequest_model_witness:
  "\<exists>c. fst (onRequest (runtime_with (Inr (upstream_with [(js ''X-Model'', js ''deepseek-r1'')] hello_stream)))
             (request_with ''POST'')) =
            Inr \<lparr>status = 200,
                 headers = [(js ''Content-Type'', js ''application/json'')],
                 body = JSON_stringify c\<rparr>
        \<and> model c = js ''deepseek-r1''"
proof -
  have "headers_get [(js ''X-Model'', js ''deepseek-r1'')] (js ''x-model'') = Some (js ''deepseek-r1'')"
    by (simp add: headers_get_def header_named_def ascii_lower_def js_def)
  moreover have "js ''deepseek-r1'' \<noteq> []" by (simp add: js_def)
  ultimately show ?thesis
    using onRequest_model [of "request_with ''POST''"
        "runtime_with (Inr (upstream_with [(js ''X-Model'', js ''deepseek-r1'')] hello_stream))"
        "upstream_with [(js ''X-Model'', js ''deepseek-r1'')] hello_stream"
        hello_stream "js ''Hello''"]
      js_POST read_hello
    by (simp add: fetch_runtime_with upstream_with_def)
qed

section \<open>Bodies without events\<close>

lemma no_data_fragment: "\<not> startsWith line (js ''data:'') \<Longrightarrow> fragment line = []"
  by (simp add: fragment_def for_line_def)

lemma decode_comment: "decode (utf8 '': keep-alive\<newline>\<newline>'') = js '': keep-alive\<newline>\<newline>''"
  by (simp add: text_defs decode_defs)

lemma comment_lines: "stream_lines comment_stream = [js '': keep-alive'', [], []]"
  by (simp add: stream_lines_def comment_stream_def decode_comment) (simp add: js_def)

text \<open>
  C10.  When the body ends and none of the lines the handler has split off starts with
  \<open>data:\<close> (an empty body included), the handler answers with status 200 and the empty
  string as the content.
\<close>

theorem onRequest_no_data:
  assumes "request_method req = js ''POST''"
    and "fetch rt upstream_url (js ''POST'') (request_headers req) (request_body req) = Inr up"
    and "upstream_body up = Some s"
    and "completes s"
    and "\<forall>line \<in> set (stream_lines s). \<not> startsWith line (js ''data:'')"
  shows "fst (onRequest rt req) =
     Inr \<lparr>status = 200,
          headers = [(js ''Content-Type'', js ''application/json'')],
          body = JSON_stringify
            \<lparr>id_field = randomUUID rt,
             object = js ''chat.completion'',
             created = now rt,
             model = model_of (upstream_headers up),
             choices = [\<lparr>index = 0,
                         message = \<lparr>role = js ''assistant'', content = []\<rparr>,
                         finish_reason = js ''stop''\<rparr>],
             usage = \<lparr>prompt_tokens = 0, completion_tokens = 0, total_tokens = 0\<rparr>\<rparr>\<rparr>"
proof -
  from assms(5) have "map fragment (stream_lines s) = map (\<lambda>l. []) (stream_lines s)"
    by (simp add: no_data_fragment)
  then have "concat (map fragment (stream_lines s)) = []"
    by simp
  with read_loop_completes [OF assms(4), of "[]"] have "fst (read_loop [] s) = Inr []"
    by simp
  from onRequest_success [OF assms(1,2,3) this] show ?thesis
    by (simp add: completion_object_def)
qed

theorem onRequest_no_data_witness:
  "stream_lines comment_stream = [js '': keep-alive'', [], []]
   \<and> fst (onRequest (runtime_with (Inr (upstream_with [] comment_stream))) (request_with ''POST'')) =
     Inr \<lparr>status = 200,
          headers = [(js ''Content-Type'', js ''application/json'')],
          body = JSON_stringify
            \<lparr>id_field = js ''3f2b8c1e-7a4d-4e9b-8f6a-1c2d3e4f5a6b'',
             object = js ''chat.completion'',
             created = 1700000000000,
             model = js ''@tx/deepseek-ai/deepseek-v3-0324'',
             choices = [\<lparr>index = 0,
                         message = \<lparr>role = js ''assistant'', content = []\<rparr>,
                         finish_reason = js ''stop''\<rparr>],
             usage = \<lparr>prompt_tokens = 0, completion_tokens = 0, total_tokens = 0\<rparr>\<rparr>\<rparr>"
proof -
  have lines: "\<forall>line \<in> set (stream_lines comment_stream). \<not> startsWith line (js ''data:'')"
    by (simp add: comment_lines) (simp add: startsWith_def js_def)
  have "completes comment_stream" by (simp add: comment_stream_def)
  moreover have "model_of [] = js ''@tx/deepseek-ai/deepseek-v3-0324''"
    by (simp add: model_of_def headers_get_def default_model_def)
  ultimately show ?thesis
    using onRequest_no_data [of "request_with ''POST''"
        "runtime_with (Inr (upstream_with [] comment_stream))" "upstream_with [] comment_stream"
        comment_stream]
      js_POST lines comment_lines
    by (simp add: fetch_runtime_with upstream_with_def) (simp add: runtime_with_def)
qed

section \<open>Failures of the transport\<close>

text \<open>
  C2, as stated, fails: when \<open>fetch\<close> rejects, the handler returns no response at all,
  hence no response with a status of the 502 class; the rejection leaves the handler
  uncaught.
\<close>

theorem fetch_rejection_not_caught:
  "onRequest (runtime_with (Inl NetworkError)) (request_with ''POST'') =
     (Inl NetworkError, [Fetch upstream_url (js ''POST'') [] None])"
  by (simp add: onRequest_cases onRequestPost_def fetch_runtime_with)
     (simp add: request_with_def)

text \<open>
  C2, amended.  A rejection of \<open>fetch\<close>, and a read that fails before the body has
  ended, leave the handler as the exception thrown: the handler returns no response, so
  the content gathered before a failed read is not returned.
\<close>

theorem transport_error_propagates:
  assumes "request_method req = js ''POST''"
    and "transport_error rt req = Some e"
  shows "fst (onRequest rt req) = Inl e"
proof (cases "fetch rt upstream_url (js ''POST'') (request_headers req) (request_body req)")
  case (Inl e')
  with assms show ?thesis
    by (simp add: transport_error_def onRequest_cases onRequestPost_def)
next
  case (Inr up)
  with assms(2) obtain s where s: "upstream_body up = Some s" and f: "\<not> completes s"
    and e: "e = NetworkError"
    by (auto simp: transport_error_def split: option.splits if_splits)
  obtain r es where r: "read_loop [] s = (r, es)" by (cases "read_loop [] s")
  with read_loop_fails [OF f, of "[]"] have "r = Inl NetworkError" by simp
  with Inr s r e assms(1) show ?thesis
    by (simp add: onRequest_cases onRequestPost_def)
qed

theorem transport_error_propagates_witness:
  "transport_error (runtime_with (Inr (upstream_with [] dropped_stream))) (request_with ''POST'')
     = Some NetworkError
   \<and> fst (onRequest (runtime_with (Inr (upstream_with [] dropped_stream))) (request_with ''POST''))
     = Inl NetworkError"
proof -
  have t: "transport_error (runtime_with (Inr (upstream_with [] dropped_stream)))
      (request_with ''POST'') = Some NetworkError"
    by (simp add: transport_error_def fetch_runtime_with upstream_with_def dropped_stream_def)
  from transport_error_propagates [OF js_POST t] t show ?thesis by simp
qed

section \<open>Malformed lines\<close>







section \<open>Which events add to the content\<close>

text \<open>
  C7, as stated, fails: a content that is the boolean \<open>true\<close> is no string, and yet the
  handler appends it, as \<open>true\<close>.
\<close>

theorem true_content_is_appended:
  "JSON_parse (trim (slice_from (js true_event) 5)) =
     Some (JObject [(js ''choices'',
       JArray [JObject [(js ''delta'', JObject [(js ''content'', JBool True)])]])])
   \<and> for_line [] (js true_event) = js ''true''
   \<and> fst (read_loop [] (Chunk (utf8 (true_event @ ''\<newline>'')) Done)) = Inr (js ''true'')"
proof -
  have "decode (utf8 (true_event @ ''\<newline>'')) = js (true_event @ ''\<newline>'')"
    by (simp add: true_event_def text_defs decode_defs)
  moreover have "split_nl (js (true_event @ ''\<newline>'')) = [js true_event, []]"
    by (simp add: true_event_def js_def)
  ultimately have "fst (read_loop [] (Chunk (utf8 (true_event @ ''\<newline>'')) Done)) = Inr (js ''true'')"
    by (simp add: for_lines_fragments fragment_true fragment_Nil)
  moreover have "JSON_parse (trim (slice_from (js true_event) 5)) =
     Some (JObject [(js ''choices'',
       JArray [JObject [(js ''delta'', JObject [(js ''content'', JBool True)])]])])"
    by (simp add: true_event_def text_defs parse_defs)
  moreover have "for_line [] (js true_event) = js ''true''"
    using fragment_true by (simp add: fragment_def)
  ultimately show ?thesis by simp
qed

text \<open>
  C7, amended.  For a \<open>data:\<close> line whose payload parses, the handler appends to the
  content exactly when \<open>choices[0].delta.content\<close> exists and is truthy: a string that is
  not empty is appended as it is, any other truthy value in its string form (nothing
  when that conversion throws).  A missing, \<open>null\<close>, empty or otherwise falsy content
  adds nothing.  In every case the lines that follow are processed: the content after a
  chunk is the content before it followed by the fragments of all its lines.
\<close>

theorem parsed_event_appends_truthy_content:
  assumes "startsWith line (js ''data:'')"
    and "JSON_parse (trim (slice_from line 5)) = Some data"
  shows "for_line c line =
     (case optional_delta_content data of
        Inl e \<Rightarrow> c
      | Inr None \<Rightarrow> c
      | Inr (Some v) \<Rightarrow>
          if truthy (Some v) then (case to_string v of None \<Rightarrow> c | Some t \<Rightarrow> c @ t) else c)
   \<and> (\<forall>t. optional_delta_content data = Inr (Some (JString t)) \<longrightarrow> for_line c line = c @ t)
   \<and> foldl for_line c (line # rest) = for_line c line @ concat (map fragment rest)"
proof -
  have 1: "for_line c line =
     (case optional_delta_content data of
        Inl e \<Rightarrow> c
      | Inr None \<Rightarrow> c
      | Inr (Some v) \<Rightarrow>
          if truthy (Some v) then (case to_string v of None \<Rightarrow> c | Some t \<Rightarrow> c @ t) else c)"
    using assms by (rule for_line_parsed)
  have 2: "for_line c line = c @ t" if "optional_delta_content data = Inr (Some (JString t))" for t
    using 1 that by (simp add: truthy_def)
  have 3: "foldl for_line c (line # rest) = for_line c line @ concat (map fragment rest)"
    by (simp add: foldl_for_line)
  from 1 2 3 show ?thesis by blast
qed

theorem parsed_event_appends_truthy_content_witness:
  "for_line (js ''Hi '') (js true_event) = js ''Hi true''
   \<and> for_line (js ''Hi '') (js hello_event) = js ''Hi Hello''
   \<and> foldl for_line (js ''Hi '') [js hello_event, js true_event] = js ''Hi Hellotrue''"
proof -
  have s: "startsWith (js hello_event) (js ''data:'')"
    by (simp add: hello_event_def text_defs)
  have p: "JSON_parse (trim (slice_from (js hello_event) 5)) =
      Some (JObject [(js ''choices'',
        JArray [JObject [(js ''delta'', JObject [(js ''content'', JString (js ''Hello''))])]])])"
    by (simp add: hello_event_def text_defs parse_defs)
  have o: "optional_delta_content
      (JObject [(js ''choices'',
        JArray [JObject [(js ''delta'', JObject [(js ''content'', JString (js ''Hello''))])]])]) =
      Inr (Some (JString (js ''Hello'')))"
    by (simp add: value_defs parse_defs js_def)
  note event = parsed_event_appends_truthy_content [OF s p, of "js ''Hi ''" "[js true_event]"]
  from event o have "for_line (js ''Hi '') (js hello_event) = js ''Hi '' @ js ''Hello''"
    by blast
  moreover from event have "foldl for_line (js ''Hi '') [js hello_event, js true_event] =
      for_line (js ''Hi '') (js hello_event) @ concat (map fragment [js true_event])"
    by blast
  moreover have "for_line (js ''Hi '') (js true_event) = js ''Hi '' @ js ''true''"
    by (simp add: for_line_acc fragment_true)
  ultimately show ?thesis
    by (simp add: fragment_true) (simp add: js_def)
qed

section \<open>The \<open>[DONE]\<close> sentinel\<close>

lemma DONE_no_json: "JSON_parse (js ''[DONE]'') = None"
  by (simp add: text_defs parse_defs)

lemma fragment_sentinel: "is_sentinel line \<Longrightarrow> fragment line = []"
  by (simp add: is_sentinel_def fragment_def for_line_def try_block_def DONE_no_json)

lemma sentinel_examples:
  "is_sentinel (js ''data: [DONE]'')" "\<not> is_sentinel (js event_a)" "\<not> is_sentinel (js event_b)"
  "\<not> is_sentinel []"
  by (simp_all add: is_sentinel_def event_a_def event_b_def text_defs)

lemma sentinel_lines:
  "stream_lines sentinel_stream = [js event_a, js ''data: [DONE]'', js event_b, []]"
proof -
  have "decode (utf8 (event_a @ ''\<newline>data: [DONE]\<newline>'' @ event_b @ ''\<newline>'')) =
      js (event_a @ ''\<newline>data: [DONE]\<newline>'' @ event_b @ ''\<newline>'')"
    by (simp add: event_a_def event_b_def text_defs decode_defs)
  then show ?thesis
    by (simp add: stream_lines_def sentinel_stream_def)
       (simp add: event_a_def event_b_def js_def)
qed

text \<open>
  C8.  A \<open>data:\<close> line whose payload is \<open>[DONE]\<close> has no meaning of its own for the handler:
  the payload is no JSON text, the line leaves the content as it is, and the read loop
  goes on after it.  The content of a body read to its end is that of the same lines
  without the sentinel lines, and the handler calls \<open>read\<close> once for every chunk and once
  more for the end of the body, whatever the chunks hold.
\<close>

theorem DONE_is_not_special:
  assumes "completes s"
  shows "JSON_parse (js ''[DONE]'') = None
   \<and> (\<forall>line. is_sentinel line \<longrightarrow> for_line c line = c)
   \<and> fst (read_loop c s) =
       Inr (c @ concat (map fragment (filter (\<lambda>l. \<not> is_sentinel l) (stream_lines s))))
   \<and> snd (read_loop c s) = replicate (Suc (length (stream_chunks s))) Read"
proof -
  have "concat (map fragment (filter (\<lambda>l. \<not> is_sentinel l) (stream_lines s))) =
      concat (map fragment (stream_lines s))"
    by (rule skip_empty_fragments) (simp add: fragment_sentinel)
  with read_loop_completes [OF assms, of c]
  have "fst (read_loop c s) =
       Inr (c @ concat (map fragment (filter (\<lambda>l. \<not> is_sentinel l) (stream_lines s))))"
    by simp
  moreover have "\<forall>line. is_sentinel line \<longrightarrow> for_line c line = c"
    by (simp add: for_line_acc fragment_sentinel)
  ultimately show ?thesis
    using DONE_no_json read_loop_effects [of c s] by simp
qed

theorem DONE_is_not_special_witness:
  "stream_lines sentinel_stream = [js event_a, js ''data: [DONE]'', js event_b, []]
   \<and> for_line (js ''a'') (js ''data: [DONE]'') = js ''a''
   \<and> read_loop [] sentinel_stream = (Inr (js ''ab''), [Read, Read])"
proof -
  have "completes sentinel_stream" by (simp add: sentinel_stream_def)
  note sentinel = DONE_is_not_special [OF this, of "[]"]
  have "fst (read_loop [] sentinel_stream) =
       Inr ([] @ concat (map fragment (filter (\<lambda>l. \<not> is_sentinel l) (stream_lines sentinel_stream))))"
    by (rule sentinel [THEN conjunct2, THEN conjunct2, THEN conjunct1])
  then have 1: "fst (read_loop [] sentinel_stream) = Inr (js ''ab'')"
    by (simp add: sentinel_lines sentinel_examples fragment_a fragment_b fragment_Nil)
       (simp add: js_def)
  have "snd (read_loop [] sentinel_stream) = replicate (Suc (length (stream_chunks sentinel_stream))) Read"
    by (rule sentinel [THEN conjunct2, THEN conjunct2, THEN conjunct2])
  then have 2: "snd (read_loop [] sentinel_stream) = [Read, Read]"
    by (simp add: sentinel_stream_def)
  have "\<forall>line. is_sentinel line \<longrightarrow> for_line (js ''a'') line = js ''a''"
    using DONE_is_not_special [OF \<open>completes sentinel_stream\<close>, of "js ''a''"] by blast
  with sentinel_examples(1) have 3: "for_line (js ''a'') (js ''data: [DONE]'') = js ''a''"
    by blast
  from 1 2 3 show ?thesis
    using sentinel_lines by (simp add: prod_eq_iff)
qed

section \<open>What the response depends on\<close>

lemma onRequestPost_upstream:
  assumes "fetch rt upstream_url (js ''POST'') (request_headers req) (request_body req) = Inr up"
  shows "fst (onRequestPost rt req) =
     (case upstream_body up of
        None \<Rightarrow> Inl TypeError
      | Some s \<Rightarrow>
          if completes s then
            Inr \<lparr>status = 200,
                 headers = [(js ''Content-Type'', js ''application/json'')],
                 body = JSON_stringify
                   (completion_object rt (upstream_headers up)
                      (concat (map fragment (stream_lines s))))\<rparr>
          else Inl NetworkError)"
    and "tl (snd (onRequestPost rt req)) =
     (case upstream_body up of
        None \<Rightarrow> []
      | Some s \<Rightarrow> replicate (Suc (length (stream_chunks s))) Read)"
proof -
  show "fst (onRequestPost rt req) =
     (case upstream_body up of
        None \<Rightarrow> Inl TypeError
      | Some s \<Rightarrow>
          if completes s then
            Inr \<lparr>status = 200,
                 headers = [(js ''Content-Type'', js ''application/json'')],
                 body = JSON_stringify
                   (completion_object rt (upstream_headers up)
                      (concat (map fragment (stream_lines s))))\<rparr>
          else Inl NetworkError)"
  proof (cases "upstream_body up")
    case None
    with assms show ?thesis by (simp add: onRequestPost_def)
  next
    case (Some s)
    show ?thesis
    proof (cases "completes s")
      case True
      from onRequestPost_success [OF assms Some True] Some True show ?thesis by simp
    next
      case False
      obtain r es where r: "read_loop [] s = (r, es)" by (cases "read_loop [] s")
      with read_loop_fails [OF False, of "[]"] have "r = Inl NetworkError" by simp
      with assms Some r False show ?thesis by (simp add: onRequestPost_def)
    qed
  qed
  show "tl (snd (onRequestPost rt req)) =
     (case upstream_body up of
        None \<Rightarrow> []
      | Some s \<Rightarrow> replicate (Suc (length (stream_chunks s))) Read)"
  proof (cases "upstream_body up")
    case None
    with assms show ?thesis by (simp add: onRequestPost_def)
  next
    case (Some s)
    obtain r es where r: "read_loop [] s = (r, es)" by (cases "read_loop [] s")
    with read_loop_effects [of "[]" s] have "es = replicate (Suc (length (stream_chunks s))) Read"
      by simp
    with assms Some r show ?thesis
      by (cases r) (simp_all add: onRequestPost_def)
  qed
qed

text \<open>
  C9.  Two runs of a handler that get the same upstream response end alike, whatever
  the two requests carry and whatever else the two runtimes do: both end with the same
  exception, or both with status 200, the same headers and bodies that are the JSON
  texts of two objects that differ in \<open>id\<close> and \<open>created\<close> at most; and both make the same
  calls of \<open>read\<close>.  For \<open>onRequest\<close> the two requests are POST requests, the only ones
  for which it calls the upstream.
\<close>

theorem same_upstream_same_response:
  assumes "fetch rt1 upstream_url (js ''POST'') (request_headers req1) (request_body req1) = Inr up"
    and "fetch rt2 upstream_url (js ''POST'') (request_headers req2) (request_body req2) = Inr up"
  shows "(request_method req1 = js ''POST'' \<and> request_method req2 = js ''POST'' \<longrightarrow>
          ((\<exists>e. fst (onRequest rt1 req1) = Inl e \<and> fst (onRequest rt2 req2) = Inl e)
          \<or> (\<exists>c1 c2.
                fst (onRequest rt1 req1) =
                  Inr \<lparr>status = 200, headers = [(js ''Content-Type'', js ''application/json'')],
                       body = JSON_stringify c1\<rparr>
                \<and> fst (onRequest rt2 req2) =
                  Inr \<lparr>status = 200, headers = [(js ''Content-Type'', js ''application/json'')],
                       body = JSON_stringify c2\<rparr>
                \<and> c2 = c1\<lparr>id_field := randomUUID rt2, created := now rt2\<rparr>))
          \<and> tl (snd (onRequest rt1 req1)) = tl (snd (onRequest rt2 req2)))
       \<and> ((\<exists>e. fst (onRequestPost rt1 req1) = Inl e \<and> fst (onRequestPost rt2 req2) = Inl e)
          \<or> (\<exists>c1 c2.
                fst (onRequestPost rt1 req1) =
                  Inr \<lparr>status = 200, headers = [(js ''Content-Type'', js ''application/json'')],
                       body = JSON_stringify c1\<rparr>
                \<and> fst (onRequestPost rt2 req2) =
                  Inr \<lparr>status = 200, headers = [(js ''Content-Type'', js ''application/json'')],
                       body = JSON_stringify c2\<rparr>
                \<and> c2 = c1\<lparr>id_field := randomUUID rt2, created := now rt2\<rparr>))
       \<and> tl (snd (onRequestPost rt1 req1)) = tl (snd (onRequestPost rt2 req2))"
proof -
  note one = onRequestPost_upstream [OF assms(1)]
  note two = onRequestPost_upstream [OF assms(2)]
  have reads: "tl (snd (onRequestPost rt1 req1)) = tl (snd (onRequestPost rt2 req2))"
    by (simp only: one(2) two(2))
  have post: "(\<exists>e. fst (onRequestPost rt1 req1) = Inl e \<and> fst (onRequestPost rt2 req2) = Inl e)
          \<or> (\<exists>c1 c2.
                fst (onRequestPost rt1 req1) =
                  Inr \<lparr>status = 200, headers = [(js ''Content-Type'', js ''application/json'')],
                       body = JSON_stringify c1\<rparr>
                \<and> fst (onRequestPost rt2 req2) =
                  Inr \<lparr>status = 200, headers = [(js ''Content-Type'', js ''application/json'')],
                       body = JSON_stringify c2\<rparr>
                \<and> c2 = c1\<lparr>id_field := randomUUID rt2, created := now rt2\<rparr>)"
  proof (cases "upstream_body up")
    case None
    with one(1) two(1) show ?thesis by simp
  next
    case (Some s)
    show ?thesis
    proof (cases "completes s")
      case False
      with Some one(1) two(1) show ?thesis by simp
    next
      case True
      let ?c1 = "completion_object rt1 (upstream_headers up) (concat (map fragment (stream_lines s)))"
      let ?c2 = "completion_object rt2 (upstream_headers up) (concat (map fragment (stream_lines s)))"
      have c: "?c2 = ?c1\<lparr>id_field := randomUUID rt2, created := now rt2\<rparr>"
        by (simp add: completion_object_def)
      from Some True one(1) have a: "fst (onRequestPost rt1 req1) =
          Inr \<lparr>status = 200, headers = [(js ''Content-Type'', js ''application/json'')],
               body = JSON_stringify ?c1\<rparr>"
        by simp
      from Some True two(1) have b: "fst (onRequestPost rt2 req2) =
          Inr \<lparr>status = 200, headers = [(js ''Content-Type'', js ''application/json'')],
               body = JSON_stringify ?c2\<rparr>"
        by simp
      from a b c show ?thesis by blast
    qed
  qed
  have "request_method req1 = js ''POST'' \<Longrightarrow> onRequest rt1 req1 = onRequestPost rt1 req1"
    and "request_method req2 = js ''POST'' \<Longrightarrow> onRequest rt2 req2 = onRequestPost rt2 req2"
    by (simp_all add: onRequest_cases)
  with post reads show ?thesis by simp
qed

theorem same_upstream_same_response_witness:
  "request_headers other_request \<noteq> request_headers (request_with ''POST'')
   \<and> request_body other_request \<noteq> request_body (request_with ''POST'')
   \<and> (\<exists>c1 c2.
         fst (onRequest (runtime_with (Inr (upstream_with [] hello_stream))) (request_with ''POST'')) =
           Inr \<lparr>status = 200, headers = [(js ''Content-Type'', js ''application/json'')],
                body = JSON_stringify c1\<rparr>
         \<and> fst (onRequest
                  ((runtime_with (Inr (upstream_with [] hello_stream)))
                     \<lparr>randomUUID := js ''9d1c5e2a-0b3f-4c7d-a8e6-5f4e3d2c1b0a'', now := 1700000000999\<rparr>)
                  other_request) =
           Inr \<lparr>status = 200, headers = [(js ''Content-Type'', js ''application/json'')],
                body = JSON_stringify c2\<rparr>
         \<and> c2 = c1\<lparr>id_field := js ''9d1c5e2a-0b3f-4c7d-a8e6-5f4e3d2c1b0a'', created := 1700000000999\<rparr>)"
proof -
  let ?rt1 = "runtime_with (Inr (upstream_with [] hello_stream))"
  let ?rt2 = "?rt1\<lparr>randomUUID := js ''9d1c5e2a-0b3f-4c7d-a8e6-5f4e3d2c1b0a'', now := 1700000000999\<rparr>"
  have m: "request_method other_request = js ''POST''" by (simp add: other_request_def)
  have f1: "fetch ?rt1 upstream_url (js ''POST'') (request_headers (request_with ''POST''))
      (request_body (request_with ''POST'')) = Inr (upstream_with [] hello_stream)"
    by (simp add: fetch_runtime_with)
  have f2: "fetch ?rt2 upstream_url (js ''POST'') (request_headers other_request)
      (request_body other_request) = Inr (upstream_with [] hello_stream)"
    by (simp add: runtime_with_def)
  have ok: "fst (onRequest ?rt1 (request_with ''POST'')) =
     Inr \<lparr>status = 200,
          headers = [(js ''Content-Type'', js ''application/json'')],
          body = JSON_stringify (completion_object ?rt1 [] (js ''Hello''))\<rparr>"
    using onRequest_success [OF js_POST f1 _ read_hello] by (simp add: upstream_with_def)
  have d: "request_headers other_request \<noteq> request_headers (request_with ''POST'')"
    "request_body other_request \<noteq> request_body (request_with ''POST'')"
    by (simp_all add: other_request_def request_with_def)
  from same_upstream_same_response [OF f1 f2, THEN conjunct1] js_POST m ok
  have "\<exists>c1 c2.
         fst (onRequest ?rt1 (request_with ''POST'')) =
           Inr \<lparr>status = 200, headers = [(js ''Content-Type'', js ''application/json'')],
                body = JSON_stringify c1\<rparr>
         \<and> fst (onRequest ?rt2 other_request) =
           Inr \<lparr>status = 200, headers = [(js ''Content-Type'', js ''application/json'')],
                body = JSON_stringify c2\<rparr>
         \<and> c2 = c1\<lparr>id_field := randomUUID ?rt2, created := now ?rt2\<rparr>"
    by auto
  then have "\<exists>c1 c2.
         fst (onRequest ?rt1 (request_with ''POST'')) =
           Inr \<lparr>status = 200, headers = [(js ''Content-Type'', js ''application/json'')],
                body = JSON_stringify c1\<rparr>
         \<and> fst (onRequest ?rt2 other_request) =
           Inr \<lparr>status = 200, headers = [(js ''Content-Type'', js ''application/json'')],
                body = JSON_stringify c2\<rparr>
         \<and> c2 = c1\<lparr>id_field := js ''9d1c5e2a-0b3f-4c7d-a8e6-5f4e3d2c1b0a'', created := 1700000000999\<rparr>"
    by simp
  with d show ?thesis by blast
qed

section \<open>Reads and lines\<close>

lemma split_nl_ends_nl: "split_nl (t @ [0x0A]) = split_nl t @ [[]]"
  using split_nl_append [of t "[]"] by simp

lemma fragments_of_aligned_texts:
  assumes "\<forall>t \<in> set (butlast ts). t \<noteq> [] \<and> last t = 0x0A"
  shows "concat (map fragment (concat (map split_nl ts))) =
         concat (map fragment (split_nl (concat ts)))"
  using assms
proof (induction ts rule: induct_list012)
  case 1
  show ?case by (simp add: fragment_Nil)
next
  case (2 t)
  show ?case by simp
next
  case (3 t u ts)
  from "3.prems" have t: "t \<noteq> []" "last t = 0x0A" by simp_all
  then have t': "t = butlast t @ [0x0A]"
    by (metis append_butlast_last_id)
  from "3.prems" have "\<forall>x \<in> set (butlast (u # ts)). x \<noteq> [] \<and> last x = 0x0A"
    by simp
  then have IH: "concat (map fragment (concat (map split_nl (u # ts)))) =
      concat (map fragment (split_nl (concat (u # ts))))"
    by (rule "3.IH"(2))
  have "split_nl (concat (t # u # ts)) = split_nl (butlast t @ 0x0A # concat (u # ts))"
    by (subst t') simp
  also have "\<dots> = split_nl (butlast t) @ split_nl (concat (u # ts))"
    by (rule split_nl_append)
  finally have whole: "concat (map fragment (split_nl (concat (t # u # ts)))) =
      concat (map fragment (split_nl (butlast t))) @ concat (map fragment (split_nl (concat (u # ts))))"
    by simp
  have "split_nl t = split_nl (butlast t) @ [[]]"
    by (subst t') (rule split_nl_ends_nl)
  then have "concat (map fragment (concat (map split_nl (t # u # ts)))) =
      concat (map fragment (split_nl (butlast t))) @ concat (map fragment (concat (map split_nl (u # ts))))"
    by (simp add: fragment_Nil)
  with IH whole show ?case by simp
qed

lemma split_hello_parts:
  "decode (utf8 (take 42 hello_event)) = js (take 42 hello_event)"
  "decode (utf8 (drop 42 hello_event @ ''\<newline>\<newline>'')) = js (drop 42 hello_event @ ''\<newline>\<newline>'')"
  by (simp_all add: hello_event_def text_defs decode_defs)

lemma read_split: "fst (read_loop [] split_stream) = Inr []"
proof -
  have "split_nl (js (take 42 hello_event)) = [js (take 42 hello_event)]"
    by (simp add: hello_event_def js_def)
  moreover have "split_nl (js (drop 42 hello_event @ ''\<newline>\<newline>'')) = [js (drop 42 hello_event), [], []]"
    by (simp add: hello_event_def js_def)
  moreover have "fragment (js (take 42 hello_event)) = []"
    by (simp add: hello_event_def line_defs text_defs parse_defs value_defs)
  moreover have "fragment (js (drop 42 hello_event)) = []"
    by (simp add: hello_event_def line_defs text_defs)
  ultimately show ?thesis
    by (simp add: split_stream_def split_hello_parts for_lines_fragments fragment_Nil)
qed

text \<open>
  C1, as stated, fails.  The same bytes give the content \<open>Hello\<close> when they arrive in one
  read, and the empty content when the first read ends inside the event: the first
  part is no JSON text, the second part is no \<open>data:\<close> line, and nothing is carried over
  from one read to the next.
\<close>

theorem split_event_is_lost:
  \<open>stream_chunks hello_stream =
     [utf8 ''data: {"choices":[{"delta":{"content":"Hello"}}]}\<newline>\<newline>'']
   \<and> stream_chunks split_stream =
     [utf8 ''data: {"choices":[{"delta":{"content":"Hel'', utf8 ''lo"}}]}\<newline>\<newline>'']
   \<and> concat (stream_chunks split_stream) = concat (stream_chunks hello_stream)
   \<and> fst (read_loop [] hello_stream) = Inr (js ''Hello'')
   \<and> fst (read_loop [] split_stream) = Inr []
   \<and> fst (read_loop [] split_stream) \<noteq> fst (read_loop [] hello_stream)
   \<and> fst (onRequest (runtime_with (Inr (upstream_with [] hello_stream))) (request_with ''POST'')) =
       Inr \<lparr>status = 200,
            headers = [(js ''Content-Type'', js ''application/json'')],
            body = JSON_stringify
              (completion_object (runtime_with (Inr (upstream_with [] hello_stream))) [] (js ''Hello''))\<rparr>
   \<and> fst (onRequest (runtime_with (Inr (upstream_with [] split_stream))) (request_with ''POST'')) =
       Inr \<lparr>status = 200,
            headers = [(js ''Content-Type'', js ''application/json'')],
            body = JSON_stringify
              (completion_object (runtime_with (Inr (upstream_with [] split_stream))) [] [])\<rparr>\<close>
proof -
  have "concat (stream_chunks split_stream) = concat (stream_chunks hello_stream)"
    by (simp add: split_stream_def hello_stream_def utf8_def hello_event_def)
  moreover have \<open>stream_chunks hello_stream =
     [utf8 ''data: {"choices":[{"delta":{"content":"Hello"}}]}\<newline>\<newline>'']\<close>
    by (simp add: hello_stream_def hello_event_def)
  moreover have \<open>stream_chunks split_stream =
     [utf8 ''data: {"choices":[{"delta":{"content":"Hel'', utf8 ''lo"}}]}\<newline>\<newline>'']\<close>
    by (simp add: split_stream_def hello_event_def)
  moreover have "fst (onRequest (runtime_with (Inr (upstream_with [] hello_stream))) (request_with ''POST'')) =
       Inr \<lparr>status = 200,
            headers = [(js ''Content-Type'', js ''application/json'')],
            body = JSON_stringify
              (completion_object (runtime_with (Inr (upstream_with [] hello_stream))) [] (js ''Hello''))\<rparr>"
    using onRequest_success [OF js_POST _ _ read_hello,
        of "runtime_with (Inr (upstream_with [] hello_stream))" "upstream_with [] hello_stream"]
    by (simp add: fetch_runtime_with upstream_with_def)
  moreover have "fst (onRequest (runtime_with (Inr (upstream_with [] split_stream))) (request_with ''POST'')) =
       Inr \<lparr>status = 200,
            headers = [(js ''Content-Type'', js ''application/json'')],
            body = JSON_stringify
              (completion_object (runtime_with (Inr (upstream_with [] split_stream))) [] [])\<rparr>"
    using onRequest_success [OF js_POST _ _ read_split,
        of "runtime_with (Inr (upstream_with [] split_stream))" "upstream_with [] split_stream"]
    by (simp add: fetch_runtime_with upstream_with_def)
  moreover have "js ''Hello'' \<noteq> []" by (simp add: js_def)
  ultimately show ?thesis using read_hello read_split by simp
qed

lemma content_of_aligned_texts:
  assumes "completes s"
    and "\<forall>v \<in> set (butlast (stream_chunks s)). decode v \<noteq> [] \<and> last (decode v) = 0x0A"
  shows "fst (read_loop [] s) = Inr (for_lines [] (concat (map decode (stream_chunks s))))"
proof -
  from assms(2) have "\<forall>t \<in> set (butlast (map decode (stream_chunks s))). t \<noteq> [] \<and> last t = 0x0A"
    by (simp add: map_butlast [symmetric])
  from fragments_of_aligned_texts [OF this]
  have "concat (map fragment (stream_lines s)) = for_lines [] (concat (map decode (stream_chunks s)))"
    by (simp add: for_lines_fragments stream_lines_def comp_def)
  with read_loop_completes [OF assms(1), of "[]"] show ?thesis by simp
qed

text \<open>
  C1, amended.  The content of a body read to its end is the concatenation, read by
  read and within a read line by line, of the fragments of the lines of each read's
  decoded text.  Where every read but the last ends with a line feed and no read after
  the first begins with a byte order mark, this is the content that the same bytes give
  when they arrive in a single read: among such segmentations the response does not
  depend on the segmentation.
\<close>

theorem content_of_aligned_reads:
  assumes "request_method req = js ''POST''"
    and "fetch rt upstream_url (js ''POST'') (request_headers req) (request_body req) = Inr up"
    and "upstream_body up = Some s"
    and "completes s"
    and "\<forall>v \<in> set (butlast (stream_chunks s)). v \<noteq> [] \<and> last v = 0x0A"
    and "\<forall>v \<in> set (tl (stream_chunks s)). \<not> starts_with_bom v"
  shows "fst (read_loop [] s) = Inr (concat (map fragment (stream_lines s)))
   \<and> fst (read_loop [] s) = fst (read_loop [] (Chunk (concat (stream_chunks s)) Done))
   \<and> fst (onRequest rt req) =
       Inr \<lparr>status = 200,
            headers = [(js ''Content-Type'', js ''application/json'')],
            body = JSON_stringify
              (completion_object rt (upstream_headers up)
                 (for_lines [] (decode (concat (stream_chunks s)))))\<rparr>"
proof -
  have 1: "fst (read_loop [] s) = Inr (concat (map fragment (stream_lines s)))"
    using read_loop_completes [OF assms(4), of "[]"] by simp
  from assms(5) have "\<forall>v \<in> set (butlast (stream_chunks s)). decode v \<noteq> [] \<and> last (decode v) = 0x0A"
    by (simp add: decode_line_feed)
  from content_of_aligned_texts [OF assms(4) this] decode_concat [OF assms(5,6)]
  have 2: "fst (read_loop [] s) = Inr (for_lines [] (decode (concat (stream_chunks s))))"
    by simp
  have 3: "fst (read_loop [] (Chunk (concat (stream_chunks s)) Done)) =
      Inr (for_lines [] (decode (concat (stream_chunks s))))"
    by simp
  from onRequest_success [OF assms(1,2,3) 2] 1 2 3 show ?thesis by simp
qed

theorem content_of_aligned_reads_witness:
  "fst (read_loop [] interleaved_stream) =
     fst (read_loop [] (Chunk (concat (stream_chunks interleaved_stream)) Done))
   \<and> fst (read_loop [] interleaved_stream) = Inr (js ''ab'')"
proof -
  have a: "\<forall>v \<in> set (butlast (stream_chunks interleaved_stream)). v \<noteq> [] \<and> last v = 0x0A"
    by (simp add: interleaved_stream_def no_choices_event_def utf8_def)
  have b: "\<forall>v \<in> set (tl (stream_chunks interleaved_stream)). \<not> starts_with_bom v"
    by (simp add: interleaved_stream_def starts_with_bom_def event_b_def utf8_def)
  have c: "completes interleaved_stream" by (simp add: interleaved_stream_def)
  have f: "fetch (runtime_with (Inr (upstream_with [] interleaved_stream))) upstream_url (js ''POST'')
      (request_headers (request_with ''POST'')) (request_body (request_with ''POST'')) =
      Inr (upstream_with [] interleaved_stream)"
    by (simp add: fetch_runtime_with)
  have u: "upstream_body (upstream_with [] interleaved_stream) = Some interleaved_stream"
    by (simp add: upstream_with_def)
  note aligned = content_of_aligned_reads [OF js_POST f u c a b]
  have "fst (read_loop [] interleaved_stream) = Inr (concat (map fragment (stream_lines interleaved_stream)))"
    by (rule aligned [THEN conjunct1])
  then have "fst (read_loop [] interleaved_stream) = Inr (js ''ab'')"
    by (simp add: interleaved_lines fragment_a fragment_b fragment_Nil)
       (simp add: line_defs text_defs parse_defs value_defs no_choices_event_def)
  with aligned [THEN conjunct2, THEN conjunct1] show ?thesis by simp
qed

end
